theory Spec2Isabelle
  imports Main
begin

section \<open>Data model of \<open>ContentScript/DocumentObserver.ts\<close>\<close>

text \<open>
  The observer runs on one JavaScript event loop.  Objects are referred to by identity:
  elements, documents, \<open>Set\<close> objects and timer handles are natural numbers, and the
  mutable fields of an object live in a store indexed by that identity.  Times are
  milliseconds as returned by \<open>Date.now()\<close>.
\<close>

type_synonym eid = nat
type_synonym did = nat
type_synonym addr = nat

datatype ObservationState = Active | Stopped

datatype error = TypeError

definition mutationThrottleTime :: int where
  "mutationThrottleTime = 30"

definition maxMutationsCount :: int where
  "maxMutationsCount = 300"

text \<open>
  The fields of a DOM node that the observer reads or writes.  \<open>mlTimestamp\<close>,
  \<open>isChecked\<close> and \<open>mlIgnore\<close> are expando properties written by other components;
  \<open>mlMutationThrottledCount\<close> is written here.  A property that was never assigned is
  \<open>None\<close> (JavaScript \<open>undefined\<close>).
\<close>

record element =
  isChecked :: bool
  isHTMLBodyElement :: bool
  isHTMLStyleElement :: bool
  isHTMLOrSVGElement :: bool
  hasMlIgnoreClass :: bool
  mlIgnore :: bool
  mlTimestamp :: "int option"
  mlMutationThrottledCount :: "int option"
  styleVisibility :: string
  originalVisibility :: "string option"
  ownerDocument :: did

datatype node = ElementNode eid | OtherNode

text \<open>
  A \<open>MutationRecord\<close>, by its \<open>type\<close>: \<open>"attributes"\<close> with target and
  \<open>attributeName\<close> (which may be \<open>null\<close>), \<open>"childList"\<close> with target and
  \<open>addedNodes\<close>, and \<open>"characterData"\<close>.
\<close>

datatype MutationRecord =
    Attributes eid "string option"
  | ChildList eid "node list"
  | CharacterData eid

fun target :: "MutationRecord \<Rightarrow> eid" where
  "target (Attributes t a) = t"
| "target (ChildList t ns) = t"
| "target (CharacterData t) = t"

fun addedNodes :: "MutationRecord \<Rightarrow> node list" where
  "addedNodes (ChildList t ns) = ns"
| "addedNodes (Attributes t a) = []"
| "addedNodes (CharacterData t) = []"

datatype observer_config =
    UpdateObserverConfig | BodyObserverConfig | SimpleBodyObserverConfig | HeadObserverConfig

text \<open>
  A \<open>MutationObserver\<close> object: what it observes (\<open>None\<close> after \<open>disconnect\<close>), its
  queue of records not yet delivered, and the expando \<open>state\<close> property.
\<close>

record MutationObserver =
  observing :: "observer_config option"
  records :: "MutationRecord list"
  obs_state :: "ObservationState option"

record document =
  doc_id :: did
  has_body :: bool
  has_head :: bool
  has_documentElement :: bool

text \<open>The deferred callbacks handed to \<open>setTimeout\<close>.\<close>

datatype task =
    ReleaseSliding
  | ReleaseAbsolute
  | BodyDrain did "MutationRecord list"
  | HeadDrain did "MutationRecord list"

text \<open>
  What the observer hands to its collaborators: one entry per \<open>raise\<close> on a dispatcher
  (for \<open>onElementsAdded\<close> the identity of the \<open>Set\<close> object passed and its content at
  that moment), and the call of the style sheet processor.  The dispatcher and its
  listeners are other components: a \<open>raise\<close> is recorded, and what a listener does
  with the argument, or whether it calls back into the observer, is not part of this
  development.
\<close>

datatype published =
    ClassChanged "eid list"
  | StyleChanged "eid list"
  | ElementsAdded addr "eid list"
  | UpdateChanged eid
  | ProcessDocumentStyleSheets did

record observer =
  clock :: int
  isActive :: bool
  isComplex :: bool
  rootDocument :: document
  rootTimestamp :: "int option"
  elements :: "eid \<Rightarrow> element"
  bodyObservers :: "did \<rightharpoonup> MutationObserver"
  headObservers :: "did \<rightharpoonup> MutationObserver"
  updateObservers :: "did \<rightharpoonup> MutationObserver"
  heap :: "addr \<Rightarrow> eid list"
  next_addr :: addr
  addedElementsGroup :: addr
  lastAddedElementsGroupSlidingTimeout :: "nat option"
  lastAddedElementsGroupAbsoluteTimeout :: "nat option"
  timers :: "(nat \<times> int \<times> task) list"
  next_timer :: nat
  raised :: "published list"

subsection \<open>JavaScript \<open>Set\<close>, timers, dispatch\<close>

text \<open>
  A \<open>Set\<close> keeps its members in insertion order without duplicates: it is a list in
  which adding a member that is present changes nothing.  \<open>new Set(iterable)\<close> adds
  the items one by one to an empty set.
\<close>

definition set_add :: "'a \<Rightarrow> 'a list \<Rightarrow> 'a list" where
  "set_add x xs = (if x \<in> set xs then xs else xs @ [x])"

definition new_Set :: "'a list \<Rightarrow> 'a list" where
  "new_Set xs = fold set_add xs []"

text \<open>
  \<open>setTimeout\<close> returns a fresh handle and queues the task \<open>delay\<close> ms after now;
  \<open>clearTimeout\<close> of \<open>undefined\<close> or of a handle that is not pending does nothing.
\<close>

definition setTimeout :: "task \<Rightarrow> int \<Rightarrow> observer \<Rightarrow> nat \<times> observer" where
  "setTimeout tk delay s =
     (next_timer s,
      s\<lparr>timers := timers s @ [(next_timer s, clock s + delay, tk)],
        next_timer := next_timer s + 1\<rparr>)"

definition clearTimeout :: "nat option \<Rightarrow> observer \<Rightarrow> observer" where
  "clearTimeout h s =
     (case h of
        None \<Rightarrow> s
      | Some i \<Rightarrow> s\<lparr>timers := filter (\<lambda>t. fst t \<noteq> i) (timers s)\<rparr>)"

definition raise :: "published \<Rightarrow> observer \<Rightarrow> observer" where
  "raise ev s = s\<lparr>raised := raised s @ [ev]\<rparr>"

subsection \<open>The accumulator of added elements\<close>

definition addedElementsGroupMinimumSize :: nat where
  "addedElementsGroupMinimumSize = 50"

definition addedElementsGroupAbsoluteTimeoutMS :: int where
  "addedElementsGroupAbsoluteTimeoutMS = 100"

definition addedElementsGroupSlidingTimeoutMS :: int where
  "addedElementsGroupSlidingTimeoutMS = 30"

definition clearAllTimeouts :: "observer \<Rightarrow> observer" where
  "clearAllTimeouts s =
     (clearTimeout (lastAddedElementsGroupSlidingTimeout s)
        (clearTimeout (lastAddedElementsGroupAbsoluteTimeout s) s))
       \<lparr>lastAddedElementsGroupSlidingTimeout := None,
        lastAddedElementsGroupAbsoluteTimeout := None\<rparr>"

text \<open>
  \<open>releaseAddedElementsGroup\<close>: the listeners receive the group's own \<open>Set\<close> object,
  which is emptied in place once \<open>raise\<close> has returned.
\<close>

definition releaseAddedElementsGroup :: "observer \<Rightarrow> observer" where
  "releaseAddedElementsGroup s =
     (let s1 = clearAllTimeouts s;
          g = addedElementsGroup s1
      in if heap s1 g \<noteq> []
         then (raise (ElementsAdded g (heap s1 g)) s1)\<lparr>heap := (heap s1)(g := [])\<rparr>
         else s1)"

text \<open>
  The elements of a chunk that is buffered are hidden once the root document has been
  in processing for more than three seconds.
\<close>

definition hide :: "element \<Rightarrow> element" where
  "hide tag =
     (if isHTMLOrSVGElement tag \<and> \<not> hasMlIgnoreClass tag
      then tag\<lparr>originalVisibility :=
                  Some (if styleVisibility tag \<noteq> [] then styleVisibility tag else ''none''),
               styleVisibility := ''hidden''\<rparr>
      else tag)"

definition hideAll :: "eid list \<Rightarrow> observer \<Rightarrow> observer" where
  "hideAll tags s =
     s\<lparr>elements := fold (\<lambda>t els. els(t := hide (els t))) tags (elements s)\<rparr>"

definition hidingDue :: "observer \<Rightarrow> bool" where
  "hidingDue s =
     (case rootTimestamp s of None \<Rightarrow> False | Some t0 \<Rightarrow> clock s - t0 > 3000)"

definition armSliding :: "observer \<Rightarrow> observer" where
  "armSliding s =
     (let (h, s1) = setTimeout ReleaseSliding addedElementsGroupSlidingTimeoutMS s
      in s1\<lparr>lastAddedElementsGroupSlidingTimeout := Some h\<rparr>)"

definition falsy_handle :: "nat option \<Rightarrow> bool" where
  "falsy_handle h = (h = None \<or> h = Some 0)"

definition armAbsolute :: "observer \<Rightarrow> observer" where
  "armAbsolute s =
     (if falsy_handle (lastAddedElementsGroupAbsoluteTimeout s)
      then (let (h, s1) = setTimeout ReleaseAbsolute addedElementsGroupAbsoluteTimeoutMS s
            in s1\<lparr>lastAddedElementsGroupAbsoluteTimeout := Some h\<rparr>)
      else s)"

text \<open>
  The merge of \<open>groupAddedElements\<close> allocates a new \<open>Set\<close> object holding the old
  group followed by the chunk, and makes it the group.
\<close>

definition mergeGroup :: "eid list \<Rightarrow> observer \<Rightarrow> observer" where
  "mergeGroup addedElements s =
     s\<lparr>heap := (heap s)(next_addr s :=
                  new_Set (heap s (addedElementsGroup s) @ addedElements)),
       addedElementsGroup := next_addr s,
       next_addr := next_addr s + 1\<rparr>"

definition groupAddedElements :: "eid list \<Rightarrow> observer \<Rightarrow> observer" where
  "groupAddedElements addedElements s =
     (let s1 = clearTimeout (lastAddedElementsGroupSlidingTimeout s) s;
          s2 = mergeGroup addedElements s1
      in if length (heap s2 (addedElementsGroup s2)) > addedElementsGroupMinimumSize
         then releaseAddedElementsGroup s2
         else armAbsolute (armSliding
                (if hidingDue s2 then hideAll addedElements s2 else s2)))"

subsection \<open>Classification of body mutations\<close>

text \<open>JavaScript truthiness of an optional number: \<open>undefined\<close> and \<open>0\<close> are falsy.\<close>

definition truthy :: "int option \<Rightarrow> bool" where
  "truthy v = (case v of None \<Rightarrow> False | Some n \<Rightarrow> n \<noteq> 0)"

definition or_zero :: "int option \<Rightarrow> int" where
  "or_zero v = (case v of None \<Rightarrow> 0 | Some n \<Rightarrow> n)"

text \<open>
  The first \<open>if\<close> of the \<open>"attributes"\<close> case: a record that arrives less than
  \<open>mutationThrottleTime\<close> after the target's \<open>mlTimestamp\<close> bumps the target's counter.
\<close>

definition throttle :: "int \<Rightarrow> element \<Rightarrow> element" where
  "throttle now el =
     (if truthy (mlTimestamp el) \<and> now - or_zero (mlTimestamp el) < mutationThrottleTime
      then el\<lparr>mlMutationThrottledCount := Some (or_zero (mlMutationThrottledCount el) + 1)\<rparr>
      else el)"

definition notThrottled :: "element \<Rightarrow> bool" where
  "notThrottled el =
     (\<not> truthy (mlMutationThrottledCount el)
      \<or> or_zero (mlMutationThrottledCount el) < maxMutationsCount)"

definition eligible :: "element \<Rightarrow> bool" where
  "eligible el = (isChecked el \<or> isHTMLBodyElement el)"

record changes =
  classChanges :: "eid list"
  childListChanges :: "eid list"
  styleChanges :: "eid list"

definition addElementNode :: "node \<Rightarrow> eid list \<Rightarrow> eid list" where
  "addElementNode n c = (case n of ElementNode e \<Rightarrow> set_add e c | OtherNode \<Rightarrow> c)"

text \<open>The body of \<open>mutations.forEach\<close> in \<open>bodyObserverCallback\<close>.\<close>

fun process_mutation ::
  "int \<Rightarrow> bool \<Rightarrow> MutationRecord \<Rightarrow> (eid \<Rightarrow> element) \<times> changes
     \<Rightarrow> (eid \<Rightarrow> element) \<times> changes" where
  "process_mutation now complex (Attributes t a) (els, ch) =
     (let els' = els(t := throttle now (els t))
      in if notThrottled (els' t) \<and> eligible (els' t)
         then (if a = Some ''class''
               then (els', ch\<lparr>classChanges := set_add t (classChanges ch)\<rparr>)
               else if a = Some ''style'' \<or> a = Some ''fill'' \<or> a = Some ''stroke''
               then (if complex
                     then (els', ch\<lparr>styleChanges := set_add t (styleChanges ch)\<rparr>)
                     else (els', ch))
               else (els', ch))
         else (els', ch))"
| "process_mutation now complex (ChildList t ns) (els, ch) =
     (els, ch\<lparr>childListChanges := fold addElementNode ns (childListChanges ch)\<rparr>)"
| "process_mutation now complex (CharacterData t) (els, ch) = (els, ch)"

definition no_changes :: changes where
  "no_changes = \<lparr>classChanges = [], childListChanges = [], styleChanges = []\<rparr>"

subsection \<open>Observer objects\<close>

definition new_MutationObserver :: MutationObserver where
  "new_MutationObserver = \<lparr>observing = None, records = [], obs_state = None\<rparr>"

definition disconnect :: "MutationObserver \<Rightarrow> MutationObserver" where
  "disconnect ob = ob\<lparr>observing := None, records := []\<rparr>"

definition observe :: "observer_config \<Rightarrow> MutationObserver \<Rightarrow> MutationObserver" where
  "observe cfg ob = ob\<lparr>observing := Some cfg\<rparr>"

definition modify ::
  "did \<Rightarrow> (MutationObserver \<Rightarrow> MutationObserver) \<Rightarrow> (did \<rightharpoonup> MutationObserver)
     \<Rightarrow> (did \<rightharpoonup> MutationObserver)" where
  "modify d f m = (case m d of None \<Rightarrow> m | Some ob \<Rightarrow> m(d \<mapsto> f ob))"

definition get_or_create :: "did \<Rightarrow> (did \<rightharpoonup> MutationObserver) \<Rightarrow> (did \<rightharpoonup> MutationObserver)" where
  "get_or_create d m = (case m d of None \<Rightarrow> m(d \<mapsto> new_MutationObserver) | Some ob \<Rightarrow> m)"

subsection \<open>The callbacks\<close>

text \<open>
  \<open>bodyObserverCallback(mutations, observer)\<close>; the observer passed is always the body
  observer of a document, named here by that document.
\<close>

definition classify :: "MutationRecord list \<Rightarrow> observer \<Rightarrow> (eid \<Rightarrow> element) \<times> changes" where
  "classify mutations s =
     fold (process_mutation (clock s) (isComplex s)) mutations (elements s, no_changes)"

definition publishStyleChanges :: "changes \<Rightarrow> observer \<Rightarrow> observer" where
  "publishStyleChanges ch s =
     (if styleChanges ch \<noteq> [] then raise (StyleChanged (styleChanges ch)) s else s)"

definition groupChildListChanges :: "changes \<Rightarrow> observer \<Rightarrow> observer" where
  "groupChildListChanges ch s =
     (if childListChanges ch \<noteq> [] then groupAddedElements (childListChanges ch) s else s)"

definition publishClassChanges :: "changes \<Rightarrow> observer \<Rightarrow> observer" where
  "publishClassChanges ch s =
     (if classChanges ch \<noteq> [] then raise (ClassChanged (classChanges ch)) s else s)"

definition disconnectIfInactive :: "did \<Rightarrow> observer \<Rightarrow> observer" where
  "disconnectIfInactive d s =
     (if \<not> isActive s then s\<lparr>bodyObservers := modify d disconnect (bodyObservers s)\<rparr> else s)"

definition bodyObserverCallback :: "MutationRecord list \<Rightarrow> did \<Rightarrow> observer \<Rightarrow> observer" where
  "bodyObserverCallback mutations d s =
     (let (els, ch) = classify mutations s
      in disconnectIfInactive d
           (publishClassChanges ch
              (groupChildListChanges ch
                 (publishStyleChanges ch (s\<lparr>elements := els\<rparr>)))))"

definition isNewStyleNode :: "(eid \<Rightarrow> element) \<Rightarrow> node \<Rightarrow> bool" where
  "isNewStyleNode els n =
     (case n of ElementNode e \<Rightarrow> isHTMLStyleElement (els e) \<and> \<not> mlIgnore (els e)
              | OtherNode \<Rightarrow> False)"

definition headObserverCallback :: "MutationRecord list \<Rightarrow> did \<Rightarrow> observer \<Rightarrow> observer" where
  "headObserverCallback mutations d s =
     (case find (\<lambda>m. find (isNewStyleNode (elements s)) (addedNodes m) \<noteq> None) mutations of
        Some mutation \<Rightarrow>
          raise (ProcessDocumentStyleSheets (ownerDocument (elements s (target mutation)))) s
      | None \<Rightarrow> s)"

text \<open>
  \<open>updateObserverCallback\<close> reads \<open>mutations[0].target\<close>, a \<open>TypeError\<close> on an empty
  array.
\<close>

definition updateObserverCallback ::
  "MutationRecord list \<Rightarrow> did \<Rightarrow> observer \<Rightarrow> error + observer" where
  "updateObserverCallback mutations d s =
     (case mutations of
        [] \<Rightarrow> Inl TypeError
      | m # ms \<Rightarrow> Inr (raise (UpdateChanged (target m)) s))"

subsection \<open>Starting and stopping\<close>

text \<open>
  \<open>observe\<close> on a missing node throws; the observer created just before stays in the
  table.  The result pairs the exception, if any, with the state left behind.
\<close>

definition startDocumentUpdateObservation :: "document \<Rightarrow> observer \<Rightarrow> error option \<times> observer" where
  "startDocumentUpdateObservation doc s =
     (let s1 = s\<lparr>updateObservers := get_or_create (doc_id doc) (updateObservers s)\<rparr>
      in if has_documentElement doc
         then (None, s1\<lparr>updateObservers :=
                          modify (doc_id doc) (observe UpdateObserverConfig) (updateObservers s1)\<rparr>)
         else (Some TypeError, s1))"

definition stopDocumentUpdateObservation :: "document \<Rightarrow> observer \<Rightarrow> observer" where
  "stopDocumentUpdateObservation doc s =
     s\<lparr>updateObservers := modify (doc_id doc) disconnect (updateObservers s)\<rparr>"

definition startHead :: "document \<Rightarrow> observer \<Rightarrow> observer" where
  "startHead doc s =
     (if has_head doc \<and> isComplex s
      then s\<lparr>headObservers := modify (doc_id doc) (observe HeadObserverConfig)
                                (get_or_create (doc_id doc) (headObservers s))\<rparr>
      else s)"

definition startDocumentObservation ::
  "document \<Rightarrow> ObservationState option \<Rightarrow> observer \<Rightarrow> error option \<times> observer" where
  "startDocumentObservation doc resumeState s =
     (if resumeState \<noteq> Some Stopped
      then (let s1 = s\<lparr>bodyObservers := get_or_create (doc_id doc) (bodyObservers s)\<rparr>
            in if has_body doc
               then (None,
                     startHead doc
                       (s1\<lparr>bodyObservers :=
                             modify (doc_id doc)
                               (\<lambda>ob. (observe (if isComplex s1 then BodyObserverConfig
                                               else SimpleBodyObserverConfig) ob)
                                       \<lparr>obs_state := Some Active\<rparr>)
                               (bodyObservers s1)\<rparr>))
               else (Some TypeError, s1))
      else (None, s))"

definition stopObserver :: "MutationObserver \<Rightarrow> MutationObserver" where
  "stopObserver ob = (disconnect (ob\<lparr>records := []\<rparr>))\<lparr>obs_state := Some Stopped\<rparr>"

definition stopBody :: "did \<Rightarrow> observer \<Rightarrow> ObservationState option \<times> observer" where
  "stopBody d s =
     (case bodyObservers s d of
        None \<Rightarrow> (None, s)
      | Some bodyObserver \<Rightarrow>
          (let mutations = records bodyObserver;
               originalState = obs_state bodyObserver;
               s1 = s\<lparr>bodyObservers := (bodyObservers s)(d \<mapsto> stopObserver bodyObserver)\<rparr>
           in (originalState, snd (setTimeout (BodyDrain d mutations) 1 s1))))"

definition stopHead :: "document \<Rightarrow> observer \<Rightarrow> observer" where
  "stopHead doc s =
     (if has_head doc
      then (case headObservers s (doc_id doc) of
              None \<Rightarrow> s
            | Some headObserver \<Rightarrow>
                (let mutations = records headObserver;
                     s1 = s\<lparr>headObservers :=
                             (headObservers s)(doc_id doc \<mapsto> stopObserver headObserver)\<rparr>
                 in if isComplex s1
                    then snd (setTimeout (HeadDrain (doc_id doc) mutations) 1 s1)
                    else s1))
      else s)"

definition stopDocumentObservation ::
  "document \<Rightarrow> observer \<Rightarrow> ObservationState option \<times> observer" where
  "stopDocumentObservation doc s =
     (let (originalState, s1) = stopBody (doc_id doc) s
      in (originalState, stopHead doc s1))"

definition beforeSettingsChanged :: "observer \<Rightarrow> observer" where
  "beforeSettingsChanged s =
     (if \<not> isActive s then snd (stopDocumentObservation (rootDocument s) s) else s)"

subsection \<open>The event loop\<close>

text \<open>
  Everything that can happen to the observer between two turns of the event loop: time
  passes, a pending timer fires, the browser queues records on an observer that is
  connected or delivers a non-empty queue to the observer's callback, a caller invokes
  one of the public methods, the settings manager changes its flags and notifies, or
  another component writes an element's fields or the root document's timestamp.
  The browser may queue any records on a connected observer; the attribute filter of
  the observer's configuration would only leave fewer.
\<close>

datatype event =
    Tick int
  | Fire nat
  | Mutate did "MutationRecord list"
  | Deliver did
  | MutateHead did "MutationRecord list"
  | DeliverHead did
  | MutateUpdate did "MutationRecord list"
  | DeliverUpdate did
  | Start document "ObservationState option"
  | Stop document
  | StartUpdate document
  | StopUpdate document
  | SettingsChanged bool bool
  | WriteElement eid element
  | WriteRootTimestamp "int option"

fun run_task :: "task \<Rightarrow> observer \<Rightarrow> observer" where
  "run_task ReleaseSliding s = releaseAddedElementsGroup s"
| "run_task ReleaseAbsolute s = releaseAddedElementsGroup s"
| "run_task (BodyDrain d mutations) s = bodyObserverCallback mutations d s"
| "run_task (HeadDrain d mutations) s = headObserverCallback mutations d s"

text \<open>A timer never fires before it is due, and fires once.\<close>

definition fire :: "nat \<Rightarrow> observer \<Rightarrow> observer" where
  "fire i s =
     (case find (\<lambda>t. fst t = i) (timers s) of
        None \<Rightarrow> s
      | Some (j, due, tk) \<Rightarrow>
          if due \<le> clock s
          then run_task tk (s\<lparr>timers := filter (\<lambda>t. fst t \<noteq> i) (timers s)\<rparr>)
          else s)"

definition enqueue :: "MutationRecord list \<Rightarrow> MutationObserver \<Rightarrow> MutationObserver" where
  "enqueue ms ob = (if observing ob \<noteq> None then ob\<lparr>records := records ob @ ms\<rparr> else ob)"

definition takeRecords :: "MutationObserver \<Rightarrow> MutationObserver" where
  "takeRecords ob = ob\<lparr>records := []\<rparr>"

definition pending :: "(did \<rightharpoonup> MutationObserver) \<Rightarrow> did \<Rightarrow> MutationRecord list" where
  "pending m d = (case m d of None \<Rightarrow> [] | Some ob \<Rightarrow> records ob)"

fun step :: "event \<Rightarrow> observer \<Rightarrow> observer" where
  "step (Tick t) s = (if clock s \<le> t then s\<lparr>clock := t\<rparr> else s)"
| "step (Fire i) s = fire i s"
| "step (Mutate d ms) s = s\<lparr>bodyObservers := modify d (enqueue ms) (bodyObservers s)\<rparr>"
| "step (Deliver d) s =
     (if pending (bodyObservers s) d \<noteq> []
      then bodyObserverCallback (pending (bodyObservers s) d) d
             (s\<lparr>bodyObservers := modify d takeRecords (bodyObservers s)\<rparr>)
      else s)"
| "step (MutateHead d ms) s = s\<lparr>headObservers := modify d (enqueue ms) (headObservers s)\<rparr>"
| "step (DeliverHead d) s =
     (if pending (headObservers s) d \<noteq> []
      then headObserverCallback (pending (headObservers s) d) d
             (s\<lparr>headObservers := modify d takeRecords (headObservers s)\<rparr>)
      else s)"
| "step (MutateUpdate d ms) s =
     s\<lparr>updateObservers := modify d (enqueue ms) (updateObservers s)\<rparr>"
| "step (DeliverUpdate d) s =
     (if pending (updateObservers s) d \<noteq> []
      then (case updateObserverCallback (pending (updateObservers s) d) d
                   (s\<lparr>updateObservers := modify d takeRecords (updateObservers s)\<rparr>) of
              Inl e \<Rightarrow> s\<lparr>updateObservers := modify d takeRecords (updateObservers s)\<rparr>
            | Inr s' \<Rightarrow> s')
      else s)"
| "step (Start doc resumeState) s = snd (startDocumentObservation doc resumeState s)"
| "step (Stop doc) s = snd (stopDocumentObservation doc s)"
| "step (StartUpdate doc) s = snd (startDocumentUpdateObservation doc s)"
| "step (StopUpdate doc) s = stopDocumentUpdateObservation doc s"
| "step (SettingsChanged a c) s = beforeSettingsChanged (s\<lparr>isActive := a, isComplex := c\<rparr>)"
| "step (WriteElement e el) s = s\<lparr>elements := (elements s)(e := el)\<rparr>"
| "step (WriteRootTimestamp t) s = s\<lparr>rootTimestamp := t\<rparr>"

definition run :: "event list \<Rightarrow> observer \<Rightarrow> observer" where
  "run evs s = fold step evs s"

text \<open>
  The observer as constructed: no observers, an empty group in the \<open>Set\<close> object
  allocated by the field initialiser, no timer handle.  Timer handles of a browser
  start at 1.
\<close>

definition init ::
  "int \<Rightarrow> bool \<Rightarrow> bool \<Rightarrow> document \<Rightarrow> (eid \<Rightarrow> element) \<Rightarrow> observer" where
  "init now active complex root els =
     \<lparr>clock = now, isActive = active, isComplex = complex, rootDocument = root,
      rootTimestamp = None, elements = els,
      bodyObservers = Map.empty, headObservers = Map.empty, updateObservers = Map.empty,
      heap = (\<lambda>a. []), next_addr = 1, addedElementsGroup = 0,
      lastAddedElementsGroupSlidingTimeout = None,
      lastAddedElementsGroupAbsoluteTimeout = None,
      timers = [], next_timer = 1, raised = []\<rparr>"

inductive reachable :: "observer \<Rightarrow> bool" where
  reachable_init: "reachable (init now active complex root els)"
| reachable_step: "reachable s \<Longrightarrow> reachable (step e s)"

text \<open>
  A turn of the loop is punctual when the clock does not pass a pending timer: a timer
  that is due fires (or is cancelled) before time moves on.
\<close>

fun punctual :: "event \<Rightarrow> observer \<Rightarrow> bool" where
  "punctual (Tick t) s = (\<forall>x \<in> set (timers s). t \<le> fst (snd x))"
| "punctual e s = True"

fun punctual_run :: "event list \<Rightarrow> observer \<Rightarrow> bool" where
  "punctual_run [] s = True"
| "punctual_run (e # es) s = (punctual e s \<and> punctual_run es (step e s))"

definition flushes :: "observer \<Rightarrow> nat" where
  "flushes s = length (filter (\<lambda>p. case p of ElementsAdded a xs \<Rightarrow> True | _ \<Rightarrow> False) (raised s))"

definition group :: "observer \<Rightarrow> eid list" where
  "group s = heap s (addedElementsGroup s)"

subsection \<open>Invariants of the event loop\<close>

text \<open>
  Timer handles are positive, below the next handle and pairwise different.
\<close>

definition timers_wf :: "observer \<Rightarrow> bool" where
  "timers_wf s =
     (0 < next_timer s
      \<and> (\<forall>t \<in> set (timers s). 0 < fst t \<and> fst t < next_timer s)
      \<and> distinct (map fst (timers s)))"

text \<open>
  A pending release timer is the one its field names, a handle held in a field is
  pending, and the two timers are pending exactly while the group is not empty.
\<close>

definition handles_wf :: "observer \<Rightarrow> bool" where
  "handles_wf s =
     ((\<forall>i d. (i, d, ReleaseSliding) \<in> set (timers s)
          \<longrightarrow> lastAddedElementsGroupSlidingTimeout s = Some i)
      \<and> (\<forall>i d. (i, d, ReleaseAbsolute) \<in> set (timers s)
          \<longrightarrow> lastAddedElementsGroupAbsoluteTimeout s = Some i)
      \<and> (\<forall>i. lastAddedElementsGroupSlidingTimeout s = Some i
          \<longrightarrow> (\<exists>d. (i, d, ReleaseSliding) \<in> set (timers s)))
      \<and> (\<forall>i. lastAddedElementsGroupAbsoluteTimeout s = Some i
          \<longrightarrow> (\<exists>d. (i, d, ReleaseAbsolute) \<in> set (timers s)))
      \<and> (group s = [] \<longleftrightarrow> lastAddedElementsGroupAbsoluteTimeout s = None)
      \<and> (lastAddedElementsGroupSlidingTimeout s = None
          \<longleftrightarrow> lastAddedElementsGroupAbsoluteTimeout s = None)
      \<and> addedElementsGroup s < next_addr s)"

text \<open>
  An observer that is disconnected has an empty queue, a stopped body observer is
  disconnected, and a head observer exists only beside a body observer.
\<close>

definition observer_ok :: "MutationObserver \<Rightarrow> bool" where
  "observer_ok ob =
     ((observing ob = None \<longrightarrow> records ob = [])
      \<and> (obs_state ob = Some Stopped \<longrightarrow> observing ob = None))"

definition observers_wf :: "observer \<Rightarrow> bool" where
  "observers_wf s =
     ((\<forall>d ob. bodyObservers s d = Some ob \<longrightarrow> observer_ok ob)
      \<and> (\<forall>d. headObservers s d \<noteq> None \<longrightarrow> bodyObservers s d \<noteq> None))"

fun nonempty_publication :: "published \<Rightarrow> bool" where
  "nonempty_publication (ClassChanged xs) = (xs \<noteq> [])"
| "nonempty_publication (StyleChanged xs) = (xs \<noteq> [])"
| "nonempty_publication (ElementsAdded a xs) = (xs \<noteq> [])"
| "nonempty_publication (UpdateChanged e) = True"
| "nonempty_publication (ProcessDocumentStyleSheets d) = True"

definition published_wf :: "observer \<Rightarrow> bool" where
  "published_wf s = (\<forall>p \<in> set (raised s). nonempty_publication p)"

definition inv :: "observer \<Rightarrow> bool" where
  "inv s = (timers_wf s \<and> handles_wf s \<and> observers_wf s \<and> published_wf s)"

fun is_release :: "nat \<times> int \<times> task \<Rightarrow> bool" where
  "is_release (i, d, ReleaseSliding) = True"
| "is_release (i, d, ReleaseAbsolute) = True"
| "is_release (i, d, BodyDrain doc ms) = False"
| "is_release (i, d, HeadDrain doc ms) = False"

fun is_body_drain :: "nat \<times> int \<times> task \<Rightarrow> bool" where
  "is_body_drain (i, d, BodyDrain doc ms) = True"
| "is_body_drain (i, d, ReleaseSliding) = False"
| "is_body_drain (i, d, ReleaseAbsolute) = False"
| "is_body_drain (i, d, HeadDrain doc ms) = False"

text \<open>The part of the state that the accumulator and the timers own.\<close>

definition accumulator ::
  "observer \<Rightarrow> (nat \<times> int \<times> task) list \<times> nat \<times> nat option \<times> nat option
     \<times> (addr \<Rightarrow> eid list) \<times> addr \<times> addr" where
  "accumulator s =
     (timers s, next_timer s, lastAddedElementsGroupSlidingTimeout s,
      lastAddedElementsGroupAbsoluteTimeout s, heap s, addedElementsGroup s, next_addr s)"

text \<open>
  The absolute timer with handle \<open>i\<close>, armed at time \<open>t0\<close>, is the one held in the
  field and still pending, and its deadline has not passed.
\<close>

definition absolute_pending :: "int \<Rightarrow> nat \<Rightarrow> observer \<Rightarrow> bool" where
  "absolute_pending t0 i s =
     (lastAddedElementsGroupAbsoluteTimeout s = Some i
      \<and> (i, t0 + addedElementsGroupAbsoluteTimeoutMS, ReleaseAbsolute) \<in> set (timers s)
      \<and> clock s \<le> t0 + addedElementsGroupAbsoluteTimeoutMS)"

subsection \<open>A concrete observer\<close>

text \<open>
  A tracked element without timestamp, a document with body and head, and the
  observer as constructed at time 0 with both settings flags on.
\<close>

definition example_element :: element where
  "example_element =
     \<lparr>isChecked = True, isHTMLBodyElement = False, isHTMLStyleElement = False,
      isHTMLOrSVGElement = True, hasMlIgnoreClass = False, mlIgnore = False,
      mlTimestamp = None, mlMutationThrottledCount = None,
      styleVisibility = [], originalVisibility = None, ownerDocument = 0\<rparr>"

definition example_document :: document where
  "example_document =
     \<lparr>doc_id = 0, has_body = True, has_head = True, has_documentElement = True\<rparr>"

definition example_observer :: observer where
  "example_observer = init 0 True True example_document (\<lambda>e. example_element)"

text \<open>
  Observation of the example document starts, the browser reports one insertion of two
  elements and a text node under element 5, and delivers it: the group is buffering.
\<close>

definition example_events :: "event list" where
  "example_events =
     [Start example_document None,
      Mutate 0 [ChildList 5 [ElementNode 1, OtherNode, ElementNode 2]],
      Deliver 0]"

definition example_buffering :: observer where
  "example_buffering = run example_events example_observer"

text \<open>
  Observation starts and one class change on element 1 is queued but not delivered;
  then the document is stopped.
\<close>

definition example_observing :: observer where
  "example_observing =
     run [Start example_document None, Mutate 0 [Attributes 1 (Some ''class'')]]
       example_observer"

definition example_stopped :: observer where
  "example_stopped = step (Stop example_document) example_observing"

text \<open>The queued class change is delivered instead.\<close>

definition example_delivered :: observer where
  "example_delivered = step (Deliver 0) example_observing"

text \<open>
  An element whose counter stands at the cap, last stamped at time 1000, seen from an
  observer whose clock reads 5000.
\<close>

definition storming_element :: element where
  "storming_element =
     example_element\<lparr>mlTimestamp := Some 1000, mlMutationThrottledCount := Some 300\<rparr>"

definition example_storming :: observer where
  "example_storming = init 5000 True True example_document (\<lambda>e. storming_element)"

text \<open>
  The update observer of the example document with a queue of two \<open>ml-update\<close>
  records, on the same element and on two different elements.
\<close>

definition example_updating_same :: observer where
  "example_updating_same =
     run [StartUpdate example_document,
          MutateUpdate 0 [Attributes 1 (Some ''ml-update''), Attributes 1 (Some ''ml-update'')]]
       example_observer"

definition example_updating :: observer where
  "example_updating =
     run [StartUpdate example_document,
          MutateUpdate 0 [Attributes 1 (Some ''ml-update''), Attributes 2 (Some ''ml-update'')]]
       example_observer"

text \<open>
  The insertion is queued with the group still empty; after its delivery at time 0 one
  more element arrives every 25 ms, each delivery resetting the sliding timer, until the
  clock reads 100.
\<close>

definition example_queued :: observer where
  "example_queued =
     run [Start example_document None,
          Mutate 0 [ChildList 5 [ElementNode 1, OtherNode, ElementNode 2]]]
       example_observer"

definition example_trickle :: "event list" where
  "example_trickle =
     [Tick 25, Mutate 0 [ChildList 5 [ElementNode 3]], Deliver 0,
      Tick 50, Mutate 0 [ChildList 5 [ElementNode 4]], Deliver 0,
      Tick 75, Mutate 0 [ChildList 5 [ElementNode 5]], Deliver 0,
      Tick 100]"

text \<open>The state the trickle ends in: the clock reads 100 and the absolute timer is due.\<close>

definition example_due :: observer where
  "example_due = run example_trickle example_buffering"

text \<open>
  A batch of four records: an \<open>id\<close> change, an insertion, then a class change on
  element 1 and a fill change on element 2.
\<close>

definition example_batch :: "MutationRecord list" where
  "example_batch =
     [Attributes 3 (Some ''id''), ChildList 5 [ElementNode 9],
      Attributes 1 (Some ''class''), Attributes 2 (Some ''fill'')]"

text \<open>
  With the settings inactive: observation is started and stopped and the drains run.
  Then the document is either stopped a second time and restarted, or only restarted;
  the clock moves on, what is due fires, and a class change on element 1 is reported
  and delivered.
\<close>

definition example_drained :: observer where
  "example_drained =
     run [Start example_document None, Stop example_document, Tick 1, Fire 1, Fire 2]
       (init 0 False True example_document (\<lambda>e. example_element))"

definition example_second_stop :: "event list" where
  "example_second_stop =
     [Stop example_document, Start example_document None, Tick 2, Fire 3, Fire 4,
      Mutate 0 [Attributes 1 (Some ''class'')], Deliver 0]"

definition example_no_second_stop :: "event list" where
  "example_no_second_stop =
     [Start example_document None, Tick 2, Fire 3, Fire 4,
      Mutate 0 [Attributes 1 (Some ''class'')], Deliver 0]"

text \<open>An insertion of 51 elements is queued on the body observer.\<close>

definition example_burst :: observer where
  "example_burst =
     run [Start example_document None, Mutate 0 [ChildList 5 (map ElementNode [0..<51])]]
       example_observer"

section \<open>Lemmas\<close>

text \<open>The equations that evaluate the model on a concrete observer.\<close>

lemmas example_defs =
  example_observer_def example_document_def example_element_def run_def init_def
  startDocumentUpdateObservation_def startDocumentObservation_def startHead_def
  stopDocumentObservation_def stopBody_def stopHead_def stopObserver_def disconnect_def
  get_or_create_def modify_def observe_def new_MutationObserver_def enqueue_def pending_def
  takeRecords_def bodyObserverCallback_def classify_def no_changes_def addElementNode_def
  set_add_def throttle_def notThrottled_def eligible_def truthy_def or_zero_def
  mutationThrottleTime_def maxMutationsCount_def raise_def releaseAddedElementsGroup_def
  clearAllTimeouts_def fire_def updateObserverCallback_def publishStyleChanges_def
  publishClassChanges_def groupChildListChanges_def disconnectIfInactive_def
  groupAddedElements_def clearTimeout_def mergeGroup_def new_Set_def
  addedElementsGroupMinimumSize_def hidingDue_def armSliding_def armAbsolute_def
  setTimeout_def falsy_handle_def group_def Let_def addedElementsGroupSlidingTimeoutMS_def
  addedElementsGroupAbsoluteTimeoutMS_def

subsection \<open>Sets, timers and the accumulator, field by field\<close>

lemma new_Set_snoc: "new_Set (xs @ [x]) = set_add x (new_Set xs)"
  by (simp add: new_Set_def)

lemma set_set_add: "set (set_add x xs) = insert x (set xs)"
  by (auto simp: set_add_def)

lemma set_new_Set: "set (new_Set xs) = set xs"
  by (induction xs rule: rev_induct) (simp_all add: new_Set_snoc set_set_add new_Set_def)

lemma new_Set_eq_Nil: "new_Set xs = [] \<longleftrightarrow> xs = []"
  using set_new_Set [of xs] by (metis set_empty)

lemma clearTimeout_fields:
  "lastAddedElementsGroupSlidingTimeout (clearTimeout h s) = lastAddedElementsGroupSlidingTimeout s"
  "lastAddedElementsGroupAbsoluteTimeout (clearTimeout h s) = lastAddedElementsGroupAbsoluteTimeout s"
  "heap (clearTimeout h s) = heap s"
  "addedElementsGroup (clearTimeout h s) = addedElementsGroup s"
  "next_addr (clearTimeout h s) = next_addr s"
  "next_timer (clearTimeout h s) = next_timer s"
  "raised (clearTimeout h s) = raised s"
  "clock (clearTimeout h s) = clock s"
  "elements (clearTimeout h s) = elements s"
  "bodyObservers (clearTimeout h s) = bodyObservers s"
  "headObservers (clearTimeout h s) = headObservers s"
  "updateObservers (clearTimeout h s) = updateObservers s"
  "isActive (clearTimeout h s) = isActive s"
  "isComplex (clearTimeout h s) = isComplex s"
  "rootDocument (clearTimeout h s) = rootDocument s"
  "rootTimestamp (clearTimeout h s) = rootTimestamp s"
  "timers (clearTimeout h s) = filter (\<lambda>t. Some (fst t) \<noteq> h) (timers s)"
  by (auto simp: clearTimeout_def split: option.splits intro: filter_cong)

lemma clearAllTimeouts_fields:
  "lastAddedElementsGroupSlidingTimeout (clearAllTimeouts s) = None"
  "lastAddedElementsGroupAbsoluteTimeout (clearAllTimeouts s) = None"
  "heap (clearAllTimeouts s) = heap s"
  "addedElementsGroup (clearAllTimeouts s) = addedElementsGroup s"
  "next_addr (clearAllTimeouts s) = next_addr s"
  "next_timer (clearAllTimeouts s) = next_timer s"
  "raised (clearAllTimeouts s) = raised s"
  "clock (clearAllTimeouts s) = clock s"
  "elements (clearAllTimeouts s) = elements s"
  "bodyObservers (clearAllTimeouts s) = bodyObservers s"
  "headObservers (clearAllTimeouts s) = headObservers s"
  "updateObservers (clearAllTimeouts s) = updateObservers s"
  "isActive (clearAllTimeouts s) = isActive s"
  "isComplex (clearAllTimeouts s) = isComplex s"
  "rootDocument (clearAllTimeouts s) = rootDocument s"
  "rootTimestamp (clearAllTimeouts s) = rootTimestamp s"
  "timers (clearAllTimeouts s) =
     filter (\<lambda>t. Some (fst t) \<noteq> lastAddedElementsGroupSlidingTimeout s
               \<and> Some (fst t) \<noteq> lastAddedElementsGroupAbsoluteTimeout s) (timers s)"
  by (auto simp: clearAllTimeouts_def clearTimeout_fields intro: filter_cong)

lemma release_fields:
  "lastAddedElementsGroupSlidingTimeout (releaseAddedElementsGroup s) = None"
  "lastAddedElementsGroupAbsoluteTimeout (releaseAddedElementsGroup s) = None"
  "addedElementsGroup (releaseAddedElementsGroup s) = addedElementsGroup s"
  "next_addr (releaseAddedElementsGroup s) = next_addr s"
  "next_timer (releaseAddedElementsGroup s) = next_timer s"
  "clock (releaseAddedElementsGroup s) = clock s"
  "elements (releaseAddedElementsGroup s) = elements s"
  "bodyObservers (releaseAddedElementsGroup s) = bodyObservers s"
  "headObservers (releaseAddedElementsGroup s) = headObservers s"
  "updateObservers (releaseAddedElementsGroup s) = updateObservers s"
  "isActive (releaseAddedElementsGroup s) = isActive s"
  "isComplex (releaseAddedElementsGroup s) = isComplex s"
  "rootDocument (releaseAddedElementsGroup s) = rootDocument s"
  "rootTimestamp (releaseAddedElementsGroup s) = rootTimestamp s"
  "timers (releaseAddedElementsGroup s) =
     filter (\<lambda>t. Some (fst t) \<noteq> lastAddedElementsGroupSlidingTimeout s
               \<and> Some (fst t) \<noteq> lastAddedElementsGroupAbsoluteTimeout s) (timers s)"
  "heap (releaseAddedElementsGroup s) = (heap s)(addedElementsGroup s := [])"
  "raised (releaseAddedElementsGroup s) =
     (if group s \<noteq> [] then raised s @ [ElementsAdded (addedElementsGroup s) (group s)]
      else raised s)"
  by (auto simp: releaseAddedElementsGroup_def Let_def clearAllTimeouts_fields raise_def group_def)

lemma group_release: "group (releaseAddedElementsGroup s) = []"
  by (simp add: group_def release_fields)

lemma groupAdded_frame:
  "clock (groupAddedElements added s) = clock s"
  "bodyObservers (groupAddedElements added s) = bodyObservers s"
  "headObservers (groupAddedElements added s) = headObservers s"
  "updateObservers (groupAddedElements added s) = updateObservers s"
  "isActive (groupAddedElements added s) = isActive s"
  "isComplex (groupAddedElements added s) = isComplex s"
  "rootDocument (groupAddedElements added s) = rootDocument s"
  "rootTimestamp (groupAddedElements added s) = rootTimestamp s"
  "addedElementsGroup (groupAddedElements added s) = next_addr s"
  "next_addr (groupAddedElements added s) = next_addr s + 1"
  by (simp_all add: groupAddedElements_def Let_def mergeGroup_def release_fields
        clearTimeout_fields armAbsolute_def armSliding_def setTimeout_def hideAll_def)

lemma groupAdded_flush:
  assumes "length (new_Set (group s @ added)) > addedElementsGroupMinimumSize"
  shows "raised (groupAddedElements added s) =
           raised s @ [ElementsAdded (next_addr s) (new_Set (group s @ added))]"
    and "heap (groupAddedElements added s) = (heap s)(next_addr s := [])"
    and "lastAddedElementsGroupSlidingTimeout (groupAddedElements added s) = None"
    and "lastAddedElementsGroupAbsoluteTimeout (groupAddedElements added s) = None"
    and "timers (groupAddedElements added s) =
           filter (\<lambda>t. Some (fst t) \<noteq> lastAddedElementsGroupSlidingTimeout s
                     \<and> Some (fst t) \<noteq> lastAddedElementsGroupAbsoluteTimeout s) (timers s)"
    and "next_timer (groupAddedElements added s) = next_timer s"
    and "elements (groupAddedElements added s) = elements s"
  using assms
  by (auto simp: groupAddedElements_def Let_def mergeGroup_def release_fields
        clearTimeout_fields group_def intro: filter_cong)

lemma groupAdded_buffer:
  assumes "\<not> length (new_Set (group s @ added)) > addedElementsGroupMinimumSize"
  shows "raised (groupAddedElements added s) = raised s"
    and "heap (groupAddedElements added s) = (heap s)(next_addr s := new_Set (group s @ added))"
    and "lastAddedElementsGroupSlidingTimeout (groupAddedElements added s) = Some (next_timer s)"
    and "lastAddedElementsGroupAbsoluteTimeout (groupAddedElements added s) =
           (if falsy_handle (lastAddedElementsGroupAbsoluteTimeout s)
            then Some (next_timer s + 1) else lastAddedElementsGroupAbsoluteTimeout s)"
    and "timers (groupAddedElements added s) =
           filter (\<lambda>t. Some (fst t) \<noteq> lastAddedElementsGroupSlidingTimeout s) (timers s)
           @ (next_timer s, clock s + addedElementsGroupSlidingTimeoutMS, ReleaseSliding)
           # (if falsy_handle (lastAddedElementsGroupAbsoluteTimeout s)
              then [(next_timer s + 1, clock s + addedElementsGroupAbsoluteTimeoutMS,
                     ReleaseAbsolute)]
              else [])"
    and "next_timer (groupAddedElements added s) =
           (if falsy_handle (lastAddedElementsGroupAbsoluteTimeout s)
            then next_timer s + 2 else next_timer s + 1)"
  using assms
  by (simp_all add: groupAddedElements_def Let_def mergeGroup_def
        clearTimeout_fields group_def armAbsolute_def armSliding_def setTimeout_def hideAll_def)

subsection \<open>The timer invariants under release and add\<close>

lemma timers_wf_filter:
  "timers_wf s \<Longrightarrow> timers s' = filter P (timers s) \<Longrightarrow> next_timer s' = next_timer s
     \<Longrightarrow> timers_wf s'"
  by (auto simp: timers_wf_def distinct_map_filter)

lemma timers_wf_release: "timers_wf s \<Longrightarrow> timers_wf (releaseAddedElementsGroup s)"
  apply (rule timers_wf_filter [where s = s])
    apply assumption
   apply (rule release_fields)
  apply (rule release_fields)
  done


lemma handles_wfD:
  assumes "handles_wf s"
  shows "(i, d, ReleaseSliding) \<in> set (timers s)
           \<Longrightarrow> lastAddedElementsGroupSlidingTimeout s = Some i"
    and "(i, d, ReleaseAbsolute) \<in> set (timers s)
           \<Longrightarrow> lastAddedElementsGroupAbsoluteTimeout s = Some i"
    and "lastAddedElementsGroupSlidingTimeout s = Some i
           \<Longrightarrow> \<exists>d. (i, d, ReleaseSliding) \<in> set (timers s)"
    and "lastAddedElementsGroupAbsoluteTimeout s = Some i
           \<Longrightarrow> \<exists>d. (i, d, ReleaseAbsolute) \<in> set (timers s)"
    and "group s = [] \<longleftrightarrow> lastAddedElementsGroupAbsoluteTimeout s = None"
    and "lastAddedElementsGroupSlidingTimeout s = None
           \<longleftrightarrow> lastAddedElementsGroupAbsoluteTimeout s = None"
    and "addedElementsGroup s < next_addr s"
  using assms unfolding handles_wf_def by blast+

lemma handles_wfI:
  assumes "\<And>i d. (i, d, ReleaseSliding) \<in> set (timers s)
           \<Longrightarrow> lastAddedElementsGroupSlidingTimeout s = Some i"
    and "\<And>i d. (i, d, ReleaseAbsolute) \<in> set (timers s)
           \<Longrightarrow> lastAddedElementsGroupAbsoluteTimeout s = Some i"
    and "\<And>i. lastAddedElementsGroupSlidingTimeout s = Some i
           \<Longrightarrow> \<exists>d. (i, d, ReleaseSliding) \<in> set (timers s)"
    and "\<And>i. lastAddedElementsGroupAbsoluteTimeout s = Some i
           \<Longrightarrow> \<exists>d. (i, d, ReleaseAbsolute) \<in> set (timers s)"
    and "group s = [] \<longleftrightarrow> lastAddedElementsGroupAbsoluteTimeout s = None"
    and "lastAddedElementsGroupSlidingTimeout s = None
           \<longleftrightarrow> lastAddedElementsGroupAbsoluteTimeout s = None"
    and "addedElementsGroup s < next_addr s"
  shows "handles_wf s"
  using assms unfolding handles_wf_def by blast

lemma handles_wf_release:
  assumes "handles_wf s"
  shows "handles_wf (releaseAddedElementsGroup s)"
proof (rule handles_wfI)
  fix i d
  show "(i, d, ReleaseSliding) \<in> set (timers (releaseAddedElementsGroup s))
          \<Longrightarrow> lastAddedElementsGroupSlidingTimeout (releaseAddedElementsGroup s) = Some i"
    using handles_wfD(1) [OF assms, of i d] by (auto simp: release_fields)
  show "(i, d, ReleaseAbsolute) \<in> set (timers (releaseAddedElementsGroup s))
          \<Longrightarrow> lastAddedElementsGroupAbsoluteTimeout (releaseAddedElementsGroup s) = Some i"
    using handles_wfD(2) [OF assms, of i d] by (auto simp: release_fields)
next
  show "addedElementsGroup (releaseAddedElementsGroup s) < next_addr (releaseAddedElementsGroup s)"
    using handles_wfD(7) [OF assms] by (simp add: release_fields)
qed (simp_all add: release_fields(1-2) group_release)

lemma timers_wfD:
  assumes "timers_wf s"
  shows "0 < next_timer s"
    and "t \<in> set (timers s) \<Longrightarrow> 0 < fst t \<and> fst t < next_timer s"
    and "distinct (map fst (timers s))"
  using assms unfolding timers_wf_def by blast+

lemma same_handle:
  assumes "distinct (map fst ts)" and "(i, x) \<in> set ts" and "(i, y) \<in> set ts"
  shows "x = y"
  using assms by (meson eq_key_imp_eq_value)

lemma timers_wf_groupAdded:
  assumes "timers_wf s"
  shows "timers_wf (groupAddedElements added s)"
proof (cases "length (new_Set (group s @ added)) > addedElementsGroupMinimumSize")
  case True
  show ?thesis
    by (rule timers_wf_filter [OF assms groupAdded_flush(5) [OF True] groupAdded_flush(6) [OF True]])
next
  case False
  have lt: "\<And>t. t \<in> set (timers s) \<Longrightarrow> 0 < fst t \<and> fst t < next_timer s"
    using timers_wfD(2) [OF assms] by blast
  have d: "distinct (map fst (timers s))" and p: "0 < next_timer s"
    using timers_wfD [OF assms] by blast+
  have d': "distinct (map fst (filter (\<lambda>t. Some (fst t) \<noteq> lastAddedElementsGroupSlidingTimeout s)
              (timers s)))"
    using d by (rule distinct_map_filter)
  show ?thesis
    unfolding timers_wf_def
    using lt d' p by (auto simp: groupAdded_buffer [OF False] dest!: lt)
qed

lemma handles_differ:
  assumes tw: "timers_wf s" and hw: "handles_wf s"
    and a: "lastAddedElementsGroupAbsoluteTimeout s = Some i"
  shows "lastAddedElementsGroupSlidingTimeout s \<noteq> Some i" and "0 < i"
proof -
  obtain d where d: "(i, d, ReleaseAbsolute) \<in> set (timers s)"
    using handles_wfD(4) [OF hw a] by blast
  show "0 < i" using timers_wfD(2) [OF tw d] by simp
  show "lastAddedElementsGroupSlidingTimeout s \<noteq> Some i"
  proof
    assume "lastAddedElementsGroupSlidingTimeout s = Some i"
    then obtain d' where "(i, d', ReleaseSliding) \<in> set (timers s)"
      using handles_wfD(3) [OF hw] by blast
    with d have "(d, ReleaseAbsolute) = (d', ReleaseSliding)"
      using same_handle [OF timers_wfD(3) [OF tw]] by blast
    then show False by simp
  qed
qed

lemma handles_wf_groupAdded:
  assumes tw: "timers_wf s" and hw: "handles_wf s" and ne: "added \<noteq> []"
  shows "handles_wf (groupAddedElements added s)"
proof (cases "length (new_Set (group s @ added)) > addedElementsGroupMinimumSize")
  case True
  note f = groupAdded_flush [OF True]
  show ?thesis
  proof (rule handles_wfI)
    fix i d
    show "(i, d, ReleaseSliding) \<in> set (timers (groupAddedElements added s))
          \<Longrightarrow> lastAddedElementsGroupSlidingTimeout (groupAddedElements added s) = Some i"
      using handles_wfD(1) [OF hw, of i d] by (auto simp: f)
    show "(i, d, ReleaseAbsolute) \<in> set (timers (groupAddedElements added s))
          \<Longrightarrow> lastAddedElementsGroupAbsoluteTimeout (groupAddedElements added s) = Some i"
      using handles_wfD(2) [OF hw, of i d] by (auto simp: f)
  qed (simp_all add: f(3,4) group_def f(2) groupAdded_frame)
next
  case False
  note b = groupAdded_buffer [OF False]
  have nz: "\<And>i. lastAddedElementsGroupAbsoluteTimeout s = Some i \<Longrightarrow> i \<noteq> 0"
    using handles_differ(2) [OF tw hw] by fastforce
  show ?thesis
  proof (rule handles_wfI)
    fix i d
    show "(i, d, ReleaseSliding) \<in> set (timers (groupAddedElements added s))
          \<Longrightarrow> lastAddedElementsGroupSlidingTimeout (groupAddedElements added s) = Some i"
      using handles_wfD(1) [OF hw, of i d] by (auto simp: b split: if_splits)
    show "(i, d, ReleaseAbsolute) \<in> set (timers (groupAddedElements added s))
          \<Longrightarrow> lastAddedElementsGroupAbsoluteTimeout (groupAddedElements added s) = Some i"
      using handles_wfD(2) [OF hw, of i d] nz [of i]
      by (auto simp: b falsy_handle_def split: if_splits)
  next
    fix i
    show "lastAddedElementsGroupSlidingTimeout (groupAddedElements added s) = Some i
          \<Longrightarrow> \<exists>d. (i, d, ReleaseSliding) \<in> set (timers (groupAddedElements added s))"
      by (auto simp: b)
    show "lastAddedElementsGroupAbsoluteTimeout (groupAddedElements added s) = Some i
          \<Longrightarrow> \<exists>d. (i, d, ReleaseAbsolute) \<in> set (timers (groupAddedElements added s))"
    proof (cases "falsy_handle (lastAddedElementsGroupAbsoluteTimeout s)")
      case True
      then show "lastAddedElementsGroupAbsoluteTimeout (groupAddedElements added s) = Some i
          \<Longrightarrow> \<exists>d. (i, d, ReleaseAbsolute) \<in> set (timers (groupAddedElements added s))"
        by (auto simp: b)
    next
      case nf: False
      assume "lastAddedElementsGroupAbsoluteTimeout (groupAddedElements added s) = Some i"
      then have a: "lastAddedElementsGroupAbsoluteTimeout s = Some i"
        using nf by (simp add: b)
      then obtain d where d: "(i, d, ReleaseAbsolute) \<in> set (timers s)"
        using handles_wfD(4) [OF hw] by blast
      have "lastAddedElementsGroupSlidingTimeout s \<noteq> Some i"
        by (rule handles_differ(1) [OF tw hw a])
      then have "(i, d, ReleaseAbsolute) \<in> set (timers (groupAddedElements added s))"
        using d by (auto simp: b)
      then show ?thesis by blast
    qed
  next
    show "group (groupAddedElements added s) = []
          \<longleftrightarrow> lastAddedElementsGroupAbsoluteTimeout (groupAddedElements added s) = None"
      using ne nz
      by (auto simp: group_def b groupAdded_frame new_Set_eq_Nil falsy_handle_def)
    show "lastAddedElementsGroupSlidingTimeout (groupAddedElements added s) = None
          \<longleftrightarrow> lastAddedElementsGroupAbsoluteTimeout (groupAddedElements added s) = None"
      by (auto simp: b falsy_handle_def)
    show "addedElementsGroup (groupAddedElements added s) < next_addr (groupAddedElements added s)"
      by (simp add: groupAdded_frame)
  qed
qed

subsection \<open>The body callback keeps the invariants\<close>

lemma timers_wf_cong:
  "timers s' = timers s \<Longrightarrow> next_timer s' = next_timer s \<Longrightarrow> timers_wf s' = timers_wf s"
  by (simp add: timers_wf_def)

lemma handles_wf_cong:
  "timers s' = timers s
   \<Longrightarrow> lastAddedElementsGroupSlidingTimeout s' = lastAddedElementsGroupSlidingTimeout s
   \<Longrightarrow> lastAddedElementsGroupAbsoluteTimeout s' = lastAddedElementsGroupAbsoluteTimeout s
   \<Longrightarrow> heap s' = heap s \<Longrightarrow> addedElementsGroup s' = addedElementsGroup s
   \<Longrightarrow> next_addr s' = next_addr s
   \<Longrightarrow> handles_wf s' = handles_wf s"
  by (simp add: handles_wf_def group_def)

lemma observers_wf_cong:
  "bodyObservers s' = bodyObservers s \<Longrightarrow> headObservers s' = headObservers s
   \<Longrightarrow> observers_wf s' = observers_wf s"
  by (simp add: observers_wf_def)

lemma published_wf_cong: "raised s' = raised s \<Longrightarrow> published_wf s' = published_wf s"
  by (simp add: published_wf_def)

lemma published_wf_raise:
  "published_wf s \<Longrightarrow> nonempty_publication p \<Longrightarrow> published_wf (raise p s)"
  by (simp add: published_wf_def raise_def)

lemma published_wf_release: "published_wf s \<Longrightarrow> published_wf (releaseAddedElementsGroup s)"
  by (simp add: published_wf_def release_fields)

lemma published_wf_groupAdded: "published_wf s \<Longrightarrow> published_wf (groupAddedElements added s)"
proof (cases "length (new_Set (group s @ added)) > addedElementsGroupMinimumSize")
  case True
  then have "new_Set (group s @ added) \<noteq> []" by auto
  moreover assume "published_wf s"
  ultimately show ?thesis by (simp add: published_wf_def groupAdded_flush [OF True])
next
  case False
  assume "published_wf s"
  then show ?thesis by (simp add: published_wf_def groupAdded_buffer [OF False])
qed

lemma observers_wf_release: "observers_wf (releaseAddedElementsGroup s) = observers_wf s"
  by (rule observers_wf_cong) (rule release_fields)+

lemma observers_wf_groupAdded: "observers_wf (groupAddedElements added s) = observers_wf s"
  by (rule observers_wf_cong) (rule groupAdded_frame)+

lemma publishStyle_fields:
  "timers (publishStyleChanges ch s) = timers s"
  "next_timer (publishStyleChanges ch s) = next_timer s"
  "lastAddedElementsGroupSlidingTimeout (publishStyleChanges ch s) = lastAddedElementsGroupSlidingTimeout s"
  "lastAddedElementsGroupAbsoluteTimeout (publishStyleChanges ch s) = lastAddedElementsGroupAbsoluteTimeout s"
  "heap (publishStyleChanges ch s) = heap s"
  "addedElementsGroup (publishStyleChanges ch s) = addedElementsGroup s"
  "next_addr (publishStyleChanges ch s) = next_addr s"
  "bodyObservers (publishStyleChanges ch s) = bodyObservers s"
  "headObservers (publishStyleChanges ch s) = headObservers s"
  "updateObservers (publishStyleChanges ch s) = updateObservers s"
  "clock (publishStyleChanges ch s) = clock s"
  "isActive (publishStyleChanges ch s) = isActive s"
  "isComplex (publishStyleChanges ch s) = isComplex s"
  "elements (publishStyleChanges ch s) = elements s"
  "rootDocument (publishStyleChanges ch s) = rootDocument s"
  "rootTimestamp (publishStyleChanges ch s) = rootTimestamp s"
  "raised (publishStyleChanges ch s) =
     raised s @ (if styleChanges ch \<noteq> [] then [StyleChanged (styleChanges ch)] else [])"
  by (simp_all add: publishStyleChanges_def raise_def)

lemma publishClass_fields:
  "timers (publishClassChanges ch s) = timers s"
  "next_timer (publishClassChanges ch s) = next_timer s"
  "lastAddedElementsGroupSlidingTimeout (publishClassChanges ch s) = lastAddedElementsGroupSlidingTimeout s"
  "lastAddedElementsGroupAbsoluteTimeout (publishClassChanges ch s) = lastAddedElementsGroupAbsoluteTimeout s"
  "heap (publishClassChanges ch s) = heap s"
  "addedElementsGroup (publishClassChanges ch s) = addedElementsGroup s"
  "next_addr (publishClassChanges ch s) = next_addr s"
  "bodyObservers (publishClassChanges ch s) = bodyObservers s"
  "headObservers (publishClassChanges ch s) = headObservers s"
  "updateObservers (publishClassChanges ch s) = updateObservers s"
  "clock (publishClassChanges ch s) = clock s"
  "isActive (publishClassChanges ch s) = isActive s"
  "isComplex (publishClassChanges ch s) = isComplex s"
  "elements (publishClassChanges ch s) = elements s"
  "rootDocument (publishClassChanges ch s) = rootDocument s"
  "rootTimestamp (publishClassChanges ch s) = rootTimestamp s"
  "raised (publishClassChanges ch s) =
     raised s @ (if classChanges ch \<noteq> [] then [ClassChanged (classChanges ch)] else [])"
  by (simp_all add: publishClassChanges_def raise_def)

lemma disconnectIfInactive_fields:
  "timers (disconnectIfInactive d s) = timers s"
  "next_timer (disconnectIfInactive d s) = next_timer s"
  "lastAddedElementsGroupSlidingTimeout (disconnectIfInactive d s) = lastAddedElementsGroupSlidingTimeout s"
  "lastAddedElementsGroupAbsoluteTimeout (disconnectIfInactive d s) = lastAddedElementsGroupAbsoluteTimeout s"
  "heap (disconnectIfInactive d s) = heap s"
  "addedElementsGroup (disconnectIfInactive d s) = addedElementsGroup s"
  "next_addr (disconnectIfInactive d s) = next_addr s"
  "headObservers (disconnectIfInactive d s) = headObservers s"
  "updateObservers (disconnectIfInactive d s) = updateObservers s"
  "clock (disconnectIfInactive d s) = clock s"
  "isActive (disconnectIfInactive d s) = isActive s"
  "isComplex (disconnectIfInactive d s) = isComplex s"
  "elements (disconnectIfInactive d s) = elements s"
  "rootDocument (disconnectIfInactive d s) = rootDocument s"
  "rootTimestamp (disconnectIfInactive d s) = rootTimestamp s"
  "raised (disconnectIfInactive d s) = raised s"
  by (simp_all add: disconnectIfInactive_def)

lemma timers_wf_groupChildList: "timers_wf s \<Longrightarrow> timers_wf (groupChildListChanges ch s)"
  by (simp add: groupChildListChanges_def timers_wf_groupAdded)

lemma handles_wf_groupChildList:
  "timers_wf s \<Longrightarrow> handles_wf s \<Longrightarrow> handles_wf (groupChildListChanges ch s)"
  by (simp add: groupChildListChanges_def handles_wf_groupAdded)

lemma published_wf_groupChildList: "published_wf s \<Longrightarrow> published_wf (groupChildListChanges ch s)"
  by (simp add: groupChildListChanges_def published_wf_groupAdded)

lemma observers_wf_groupChildList: "observers_wf (groupChildListChanges ch s) = observers_wf s"
  by (simp add: groupChildListChanges_def observers_wf_groupAdded)

lemma timers_wf_bodyCallback: "timers_wf s \<Longrightarrow> timers_wf (bodyObserverCallback ms d s)"
proof -
  assume a: "timers_wf s"
  obtain els ch where c: "classify ms s = (els, ch)" by (cases "classify ms s")
  have 1: "timers_wf (publishStyleChanges ch (s\<lparr>elements := els\<rparr>))"
    using a by (simp add: timers_wf_def publishStyle_fields)
  have 2: "timers_wf (groupChildListChanges ch (publishStyleChanges ch (s\<lparr>elements := els\<rparr>)))"
    by (rule timers_wf_groupChildList [OF 1])
  show ?thesis
    using 2 by (simp add: bodyObserverCallback_def c timers_wf_def publishClass_fields
        disconnectIfInactive_fields)
qed

lemma handles_wf_bodyCallback:
  assumes a: "timers_wf s" and h: "handles_wf s"
  shows "handles_wf (bodyObserverCallback ms d s)"
proof -
  obtain els ch where c: "classify ms s = (els, ch)" by (cases "classify ms s")
  let ?s1 = "publishStyleChanges ch (s\<lparr>elements := els\<rparr>)"
  have 1: "timers_wf ?s1"
    using a by (simp add: timers_wf_def publishStyle_fields)
  have "handles_wf ?s1 = handles_wf s"
    by (rule handles_wf_cong) (simp_all add: publishStyle_fields)
  then have 2: "handles_wf ?s1" using h by simp
  have 3: "handles_wf (groupChildListChanges ch ?s1)"
    by (rule handles_wf_groupChildList [OF 1 2])
  have "handles_wf (bodyObserverCallback ms d s) = handles_wf (groupChildListChanges ch ?s1)"
    by (rule handles_wf_cong)
      (simp_all add: bodyObserverCallback_def c publishClass_fields disconnectIfInactive_fields)
  then show ?thesis using 3 by simp
qed

lemma published_wf_bodyCallback:
  assumes "published_wf s"
  shows "published_wf (bodyObserverCallback ms d s)"
proof -
  obtain els ch where c: "classify ms s = (els, ch)" by (cases "classify ms s")
  let ?s1 = "publishStyleChanges ch (s\<lparr>elements := els\<rparr>)"
  have 1: "published_wf ?s1"
    using assms by (auto simp: published_wf_def publishStyle_fields)
  have 2: "published_wf (groupChildListChanges ch ?s1)"
    by (rule published_wf_groupChildList [OF 1])
  show ?thesis
    using 2 by (auto simp: bodyObserverCallback_def c published_wf_def publishClass_fields
      disconnectIfInactive_fields)
qed

subsection \<open>Stopping keeps the timer invariants\<close>

lemma timers_wf_acc: "accumulator s' = accumulator s \<Longrightarrow> timers_wf s' = timers_wf s"
  by (simp add: accumulator_def timers_wf_def)

lemma handles_wf_acc: "accumulator s' = accumulator s \<Longrightarrow> handles_wf s' = handles_wf s"
  by (simp add: accumulator_def handles_wf_def group_def)

lemma timers_wf_setTimeout: "timers_wf s \<Longrightarrow> timers_wf (snd (setTimeout tk dl s))"
  by (fastforce simp: timers_wf_def setTimeout_def)

lemma handles_wf_setTimeout:
  assumes "handles_wf s" and "tk \<noteq> ReleaseSliding" and "tk \<noteq> ReleaseAbsolute"
  shows "handles_wf (snd (setTimeout tk dl s))"
proof (rule handles_wfI)
  fix i d
  show "(i, d, ReleaseSliding) \<in> set (timers (snd (setTimeout tk dl s)))
        \<Longrightarrow> lastAddedElementsGroupSlidingTimeout (snd (setTimeout tk dl s)) = Some i"
    using handles_wfD(1) [OF assms(1), of i d] assms(2) by (auto simp: setTimeout_def)
  show "(i, d, ReleaseAbsolute) \<in> set (timers (snd (setTimeout tk dl s)))
        \<Longrightarrow> lastAddedElementsGroupAbsoluteTimeout (snd (setTimeout tk dl s)) = Some i"
    using handles_wfD(2) [OF assms(1), of i d] assms(3) by (auto simp: setTimeout_def)
next
  fix i
  show "lastAddedElementsGroupSlidingTimeout (snd (setTimeout tk dl s)) = Some i
        \<Longrightarrow> \<exists>d. (i, d, ReleaseSliding) \<in> set (timers (snd (setTimeout tk dl s)))"
    using handles_wfD(3) [OF assms(1), of i] by (auto simp: setTimeout_def)
  show "lastAddedElementsGroupAbsoluteTimeout (snd (setTimeout tk dl s)) = Some i
        \<Longrightarrow> \<exists>d. (i, d, ReleaseAbsolute) \<in> set (timers (snd (setTimeout tk dl s)))"
    using handles_wfD(4) [OF assms(1), of i] by (auto simp: setTimeout_def)
next
  show "group (snd (setTimeout tk dl s)) = []
        \<longleftrightarrow> lastAddedElementsGroupAbsoluteTimeout (snd (setTimeout tk dl s)) = None"
    using handles_wfD(5) [OF assms(1)] by (simp add: setTimeout_def group_def)
  show "lastAddedElementsGroupSlidingTimeout (snd (setTimeout tk dl s)) = None
        \<longleftrightarrow> lastAddedElementsGroupAbsoluteTimeout (snd (setTimeout tk dl s)) = None"
    using handles_wfD(6) [OF assms(1)] by (simp add: setTimeout_def)
  show "addedElementsGroup (snd (setTimeout tk dl s)) < next_addr (snd (setTimeout tk dl s))"
    using handles_wfD(7) [OF assms(1)] by (simp add: setTimeout_def)
qed

lemma stopBody_cases:
  "bodyObservers s d = None \<Longrightarrow> stopBody d s = (None, s)"
  "bodyObservers s d = Some ob \<Longrightarrow>
     stopBody d s = (obs_state ob,
       snd (setTimeout (BodyDrain d (records ob)) 1
              (s\<lparr>bodyObservers := (bodyObservers s)(d \<mapsto> stopObserver ob)\<rparr>)))"
  by (simp_all add: stopBody_def Let_def)

lemma timers_wf_stopBody: "timers_wf s \<Longrightarrow> timers_wf (snd (stopBody d s))"
proof (cases "bodyObservers s d")
  case None
  assume "timers_wf s" then show ?thesis by (simp add: stopBody_cases(1) [OF None])
next
  case (Some ob)
  assume "timers_wf s"
  then have "timers_wf (s\<lparr>bodyObservers := (bodyObservers s)(d \<mapsto> stopObserver ob)\<rparr>)"
    by (simp add: timers_wf_def)
  then show ?thesis by (simp add: stopBody_cases(2) [OF Some] timers_wf_setTimeout)
qed

lemma handles_wf_stopBody: "handles_wf s \<Longrightarrow> handles_wf (snd (stopBody d s))"
proof (cases "bodyObservers s d")
  case None
  assume "handles_wf s" then show ?thesis by (simp add: stopBody_cases(1) [OF None])
next
  case (Some ob)
  assume h: "handles_wf s"
  have "handles_wf (s\<lparr>bodyObservers := (bodyObservers s)(d \<mapsto> stopObserver ob)\<rparr>) = handles_wf s"
    by (rule handles_wf_acc) (simp add: accumulator_def)
  with h have "handles_wf (s\<lparr>bodyObservers := (bodyObservers s)(d \<mapsto> stopObserver ob)\<rparr>)"
    by simp
  then show ?thesis by (simp add: stopBody_cases(2) [OF Some] handles_wf_setTimeout)
qed

lemma stopHead_cases:
  "\<not> has_head doc \<or> headObservers s (doc_id doc) = None \<Longrightarrow> stopHead doc s = s"
  "has_head doc \<Longrightarrow> headObservers s (doc_id doc) = Some ob \<Longrightarrow> isComplex s \<Longrightarrow>
     stopHead doc s =
       snd (setTimeout (HeadDrain (doc_id doc) (records ob)) 1
              (s\<lparr>headObservers := (headObservers s)(doc_id doc \<mapsto> stopObserver ob)\<rparr>))"
  "has_head doc \<Longrightarrow> headObservers s (doc_id doc) = Some ob \<Longrightarrow> \<not> isComplex s \<Longrightarrow>
     stopHead doc s = s\<lparr>headObservers := (headObservers s)(doc_id doc \<mapsto> stopObserver ob)\<rparr>"
  by (auto simp: stopHead_def Let_def)

lemma timers_wf_stopHead: "timers_wf s \<Longrightarrow> timers_wf (stopHead doc s)"
proof -
  assume a: "timers_wf s"
  consider "\<not> has_head doc \<or> headObservers s (doc_id doc) = None"
    | ob where "has_head doc" "headObservers s (doc_id doc) = Some ob" "isComplex s"
    | ob where "has_head doc" "headObservers s (doc_id doc) = Some ob" "\<not> isComplex s"
    by (cases "headObservers s (doc_id doc)") auto
  then show ?thesis
  proof cases
    case 1 then show ?thesis using a by (simp add: stopHead_cases(1))
  next
    case 2
    have "timers_wf (s\<lparr>headObservers := (headObservers s)(doc_id doc \<mapsto> stopObserver ob)\<rparr>)"
      using a by (simp add: timers_wf_def)
    then show ?thesis by (simp add: stopHead_cases(2) [OF 2] timers_wf_setTimeout)
  next
    case 3 then show ?thesis using a by (simp add: stopHead_cases(3) [OF 3] timers_wf_def)
  qed
qed

lemma handles_wf_stopHead: "handles_wf s \<Longrightarrow> handles_wf (stopHead doc s)"
proof -
  assume a: "handles_wf s"
  consider "\<not> has_head doc \<or> headObservers s (doc_id doc) = None"
    | ob where "has_head doc" "headObservers s (doc_id doc) = Some ob" "isComplex s"
    | ob where "has_head doc" "headObservers s (doc_id doc) = Some ob" "\<not> isComplex s"
    by (cases "headObservers s (doc_id doc)") auto
  then show ?thesis
  proof cases
    case 1 then show ?thesis using a by (simp add: stopHead_cases(1))
  next
    case 2
    have "handles_wf (s\<lparr>headObservers := (headObservers s)(doc_id doc \<mapsto> stopObserver ob)\<rparr>)
            = handles_wf s"
      by (rule handles_wf_acc) (simp add: accumulator_def)
    then show ?thesis using a by (simp add: stopHead_cases(2) [OF 2] handles_wf_setTimeout)
  next
    case 3
    have "handles_wf (s\<lparr>headObservers := (headObservers s)(doc_id doc \<mapsto> stopObserver ob)\<rparr>)
            = handles_wf s"
      by (rule handles_wf_acc) (simp add: accumulator_def)
    then show ?thesis using a by (simp add: stopHead_cases(3) [OF 3])
  qed
qed

lemma stop_snd: "snd (stopDocumentObservation doc s) = stopHead doc (snd (stopBody (doc_id doc) s))"
  by (simp add: stopDocumentObservation_def split: prod.splits)

lemma stop_fst: "fst (stopDocumentObservation doc s) = fst (stopBody (doc_id doc) s)"
  by (simp add: stopDocumentObservation_def split: prod.splits)

lemma timers_wf_stop: "timers_wf s \<Longrightarrow> timers_wf (snd (stopDocumentObservation doc s))"
  by (simp add: stop_snd timers_wf_stopHead timers_wf_stopBody)

lemma handles_wf_stop: "handles_wf s \<Longrightarrow> handles_wf (snd (stopDocumentObservation doc s))"
  by (simp add: stop_snd handles_wf_stopHead handles_wf_stopBody)

subsection \<open>Firing a timer keeps the timer invariants\<close>

lemma handles_wf_release_owned:
  assumes a: "\<And>i d. (i, d, ReleaseSliding) \<in> set (timers s)
            \<Longrightarrow> lastAddedElementsGroupSlidingTimeout s = Some i"
    and b: "\<And>i d. (i, d, ReleaseAbsolute) \<in> set (timers s)
            \<Longrightarrow> lastAddedElementsGroupAbsoluteTimeout s = Some i"
    and c: "addedElementsGroup s < next_addr s"
  shows "handles_wf (releaseAddedElementsGroup s)"
proof (rule handles_wfI)
  fix i d
  show "(i, d, ReleaseSliding) \<in> set (timers (releaseAddedElementsGroup s))
          \<Longrightarrow> lastAddedElementsGroupSlidingTimeout (releaseAddedElementsGroup s) = Some i"
    using a [of i d] by (auto simp: release_fields)
  show "(i, d, ReleaseAbsolute) \<in> set (timers (releaseAddedElementsGroup s))
          \<Longrightarrow> lastAddedElementsGroupAbsoluteTimeout (releaseAddedElementsGroup s) = Some i"
    using b [of i d] by (auto simp: release_fields)
next
  show "addedElementsGroup (releaseAddedElementsGroup s) < next_addr (releaseAddedElementsGroup s)"
    using c by (simp add: release_fields)
qed (simp_all add: release_fields(1-2) group_release)

lemma find_handle:
  assumes "find (\<lambda>t. fst t = i) ts = Some (j, due, tk)"
  shows "j = i" and "(i, due, tk) \<in> set ts"
  using assms by (induction ts) (auto split: if_splits)

lemma headCallback_acc: "accumulator (headObserverCallback ms d s) = accumulator s"
  by (simp add: headObserverCallback_def accumulator_def raise_def split: option.splits)

lemma timers_wf_run_task: "timers_wf s \<Longrightarrow> timers_wf (run_task tk s)"
  by (cases tk) (simp_all add: timers_wf_release timers_wf_bodyCallback
      timers_wf_acc [OF headCallback_acc])

lemma timers_wf_fire: "timers_wf s \<Longrightarrow> timers_wf (fire i s)"
proof -
  assume a: "timers_wf s"
  have "timers_wf (s\<lparr>timers := filter (\<lambda>t. fst t \<noteq> i) (timers s)\<rparr>)"
    by (rule timers_wf_filter [OF a]) simp_all
  then show ?thesis
    using a by (simp add: fire_def timers_wf_run_task split: option.splits)
qed

lemma handles_wf_fire:
  assumes tw: "timers_wf s" and hw: "handles_wf s"
  shows "handles_wf (fire i s)"
proof (cases "find (\<lambda>t. fst t = i) (timers s)")
  case None
  then show ?thesis using hw by (simp add: fire_def)
next
  case (Some x)
  obtain j due tk where x: "x = (j, due, tk)" by (cases x)
  note f = find_handle [OF Some [unfolded x]]
  let ?s = "s\<lparr>timers := filter (\<lambda>t. fst t \<noteq> i) (timers s)\<rparr>"
  have tw': "timers_wf ?s"
    by (rule timers_wf_filter [OF tw]) simp_all
  have rel: "handles_wf (releaseAddedElementsGroup ?s)"
  proof (rule handles_wf_release_owned)
    fix k d
    show "(k, d, ReleaseSliding) \<in> set (timers ?s)
            \<Longrightarrow> lastAddedElementsGroupSlidingTimeout ?s = Some k"
      using handles_wfD(1) [OF hw, of k d] by simp
    show "(k, d, ReleaseAbsolute) \<in> set (timers ?s)
            \<Longrightarrow> lastAddedElementsGroupAbsoluteTimeout ?s = Some k"
      using handles_wfD(2) [OF hw, of k d] by simp
  next
    show "addedElementsGroup ?s < next_addr ?s"
      using handles_wfD(7) [OF hw] by simp
  qed
  have keep: "handles_wf ?s" if nr: "tk \<noteq> ReleaseSliding" "tk \<noteq> ReleaseAbsolute"
  proof (rule handles_wfI)
    fix k d
    show "(k, d, ReleaseSliding) \<in> set (timers ?s)
            \<Longrightarrow> lastAddedElementsGroupSlidingTimeout ?s = Some k"
      using handles_wfD(1) [OF hw, of k d] by simp
    show "(k, d, ReleaseAbsolute) \<in> set (timers ?s)
            \<Longrightarrow> lastAddedElementsGroupAbsoluteTimeout ?s = Some k"
      using handles_wfD(2) [OF hw, of k d] by simp
  next
    fix k
    show "\<exists>d. (k, d, ReleaseSliding) \<in> set (timers ?s)"
      if "lastAddedElementsGroupSlidingTimeout ?s = Some k"
    proof -
      have "lastAddedElementsGroupSlidingTimeout s = Some k" using that by simp
      then obtain d where d: "(k, d, ReleaseSliding) \<in> set (timers s)"
        using handles_wfD(3) [OF hw, of k] by blast
      have "k \<noteq> i"
        using same_handle [OF timers_wfD(3) [OF tw] f(2), of "(d, ReleaseSliding)"] d nr by auto
      then show ?thesis using d by auto
    qed
    show "\<exists>d. (k, d, ReleaseAbsolute) \<in> set (timers ?s)"
      if "lastAddedElementsGroupAbsoluteTimeout ?s = Some k"
    proof -
      have "lastAddedElementsGroupAbsoluteTimeout s = Some k" using that by simp
      then obtain d where d: "(k, d, ReleaseAbsolute) \<in> set (timers s)"
        using handles_wfD(4) [OF hw, of k] by blast
      have "k \<noteq> i"
        using same_handle [OF timers_wfD(3) [OF tw] f(2), of "(d, ReleaseAbsolute)"] d nr by auto
      then show ?thesis using d by auto
    qed
  next
    show "group ?s = [] \<longleftrightarrow> lastAddedElementsGroupAbsoluteTimeout ?s = None"
      using handles_wfD(5) [OF hw] by (simp add: group_def)
    show "lastAddedElementsGroupSlidingTimeout ?s = None
            \<longleftrightarrow> lastAddedElementsGroupAbsoluteTimeout ?s = None"
      using handles_wfD(6) [OF hw] by simp
    show "addedElementsGroup ?s < next_addr ?s"
      using handles_wfD(7) [OF hw] by simp
  qed
  have "handles_wf (run_task tk ?s)"
  proof (cases tk)
    case ReleaseSliding then show ?thesis using rel by simp
  next
    case ReleaseAbsolute then show ?thesis using rel by simp
  next
    case (BodyDrain d ms)
    then show ?thesis using keep tw' by (simp add: handles_wf_bodyCallback)
  next
    case (HeadDrain d ms)
    then show ?thesis using keep by (simp add: handles_wf_acc [OF headCallback_acc])
  qed
  then show ?thesis
    using hw by (simp add: fire_def Some x)
qed

subsection \<open>Every event keeps the timer invariants\<close>

lemma start_acc: "accumulator (snd (startDocumentObservation doc r s)) = accumulator s"
  by (simp add: startDocumentObservation_def startHead_def accumulator_def Let_def)

lemma startUpdate_acc: "accumulator (snd (startDocumentUpdateObservation doc s)) = accumulator s"
  by (simp add: startDocumentUpdateObservation_def accumulator_def Let_def)

lemma stopUpdate_acc: "accumulator (stopDocumentUpdateObservation doc s) = accumulator s"
  by (simp add: stopDocumentUpdateObservation_def accumulator_def)

lemma timers_wf_before: "timers_wf s \<Longrightarrow> timers_wf (beforeSettingsChanged s)"
  by (simp add: beforeSettingsChanged_def timers_wf_stop)

lemma handles_wf_before: "handles_wf s \<Longrightarrow> handles_wf (beforeSettingsChanged s)"
  by (simp add: beforeSettingsChanged_def handles_wf_stop)

lemma timers_wf_step: "timers_wf s \<Longrightarrow> timers_wf (step e s)"
proof (cases e)
  case (Fire i) assume "timers_wf s" then show ?thesis by (simp add: Fire timers_wf_fire)
next
  case (Deliver d)
  assume a: "timers_wf s"
  then have "timers_wf (s\<lparr>bodyObservers := modify d takeRecords (bodyObservers s)\<rparr>)"
    by (simp add: timers_wf_def)
  then show ?thesis using a by (simp add: Deliver timers_wf_bodyCallback)
next
  case (DeliverHead d)
  assume a: "timers_wf s"
  then have "timers_wf (s\<lparr>headObservers := modify d takeRecords (headObservers s)\<rparr>)"
    by (simp add: timers_wf_def)
  then show ?thesis using a by (simp add: DeliverHead timers_wf_acc [OF headCallback_acc])
next
  case (DeliverUpdate d)
  assume a: "timers_wf s"
  then show ?thesis
    by (simp add: DeliverUpdate updateObserverCallback_def timers_wf_def raise_def
        split: list.splits)
next
  case (Start doc r)
  assume "timers_wf s" then show ?thesis by (simp add: Start timers_wf_acc [OF start_acc])
next
  case (Stop doc)
  assume "timers_wf s" then show ?thesis by (simp add: Stop timers_wf_stop)
next
  case (StartUpdate doc)
  assume "timers_wf s" then show ?thesis
    by (simp add: StartUpdate timers_wf_acc [OF startUpdate_acc])
next
  case (StopUpdate doc)
  assume "timers_wf s" then show ?thesis
    by (simp add: StopUpdate timers_wf_acc [OF stopUpdate_acc])
next
  case (SettingsChanged a c)
  assume "timers_wf s"
  then have "timers_wf (s\<lparr>isActive := a, isComplex := c\<rparr>)" by (simp add: timers_wf_def)
  then show ?thesis by (simp add: SettingsChanged timers_wf_before)
qed (simp_all add: timers_wf_def)

lemma handles_wf_upd:
  "handles_wf (s\<lparr>bodyObservers := b\<rparr>) = handles_wf s"
  "handles_wf (s\<lparr>headObservers := b\<rparr>) = handles_wf s"
  "handles_wf (s\<lparr>updateObservers := b\<rparr>) = handles_wf s"
  "handles_wf (s\<lparr>clock := t\<rparr>) = handles_wf s"
  "handles_wf (s\<lparr>elements := els\<rparr>) = handles_wf s"
  "handles_wf (s\<lparr>rootTimestamp := ts\<rparr>) = handles_wf s"
  "handles_wf (s\<lparr>isActive := a, isComplex := c\<rparr>) = handles_wf s"
  "handles_wf (raise p s) = handles_wf s"
  by (rule handles_wf_acc, simp add: accumulator_def raise_def)+

lemma handles_wf_step:
  assumes tw: "timers_wf s" and hw: "handles_wf s"
  shows "handles_wf (step e s)"
proof (cases e)
  case (Fire i) then show ?thesis by (simp add: handles_wf_fire [OF tw hw])
next
  case (Deliver d)
  have "timers_wf (s\<lparr>bodyObservers := modify d takeRecords (bodyObservers s)\<rparr>)"
    using tw by (simp add: timers_wf_def)
  then show ?thesis using hw by (simp add: Deliver handles_wf_bodyCallback handles_wf_upd)
next
  case (DeliverHead d)
  then show ?thesis using hw by (simp add: handles_wf_acc [OF headCallback_acc] handles_wf_upd)
next
  case (DeliverUpdate d)
  then show ?thesis using hw
    by (simp add: updateObserverCallback_def handles_wf_upd split: list.splits)
next
  case (Start doc r)
  then show ?thesis using hw by (simp add: handles_wf_acc [OF start_acc])
next
  case (Stop doc)
  then show ?thesis using hw by (simp add: handles_wf_stop)
next
  case (StartUpdate doc)
  then show ?thesis using hw by (simp add: handles_wf_acc [OF startUpdate_acc])
next
  case (StopUpdate doc)
  then show ?thesis using hw by (simp add: handles_wf_acc [OF stopUpdate_acc])
next
  case (SettingsChanged a c)
  then show ?thesis using hw by (simp add: handles_wf_before handles_wf_upd)
qed (simp_all add: hw handles_wf_upd)

subsection \<open>Observer objects stay consistent\<close>

lemma modify_apply:
  "modify d f m d' = (if d' = d then map_option f (m d) else m d')"
  by (simp add: modify_def split: option.splits)

lemma get_or_create_apply:
  "get_or_create d m d' =
     (if d' = d then Some (case m d of None \<Rightarrow> new_MutationObserver | Some ob \<Rightarrow> ob) else m d')"
  by (simp add: get_or_create_def split: option.splits)

lemma observer_ok_ops:
  "observer_ok new_MutationObserver"
  "observer_ok ob \<Longrightarrow> observer_ok (enqueue ms ob)"
  "observer_ok ob \<Longrightarrow> observer_ok (takeRecords ob)"
  "observer_ok (disconnect ob)"
  "observer_ok (stopObserver ob)"
  "observer_ok ((observe cfg ob)\<lparr>obs_state := Some Active\<rparr>)"
  by (auto simp: observer_ok_def new_MutationObserver_def enqueue_def takeRecords_def
      disconnect_def stopObserver_def observe_def)

lemma observers_wfI:
  assumes "\<And>d ob. bodyObservers s d = Some ob \<Longrightarrow> observer_ok ob"
    and "\<And>d. headObservers s d \<noteq> None \<Longrightarrow> bodyObservers s d \<noteq> None"
  shows "observers_wf s"
  using assms unfolding observers_wf_def by blast

lemma observers_wfD:
  assumes "observers_wf s"
  shows "bodyObservers s d = Some ob \<Longrightarrow> observer_ok ob"
    and "headObservers s d \<noteq> None \<Longrightarrow> bodyObservers s d \<noteq> None"
  using assms unfolding observers_wf_def by blast+

lemma observers_wf_modify_body:
  assumes ow: "observers_wf s" and f: "\<And>ob. observer_ok ob \<Longrightarrow> observer_ok (f ob)"
    and b: "bodyObservers s' = modify d f (bodyObservers s)"
    and h: "headObservers s' = headObservers s"
  shows "observers_wf s'"
proof (rule observers_wfI)
  fix d' ob
  assume "bodyObservers s' d' = Some ob"
  then show "observer_ok ob"
    using observers_wfD(1) [OF ow] f by (auto simp: b modify_apply split: if_splits)
next
  fix d'
  assume "headObservers s' d' \<noteq> None"
  then show "bodyObservers s' d' \<noteq> None"
    using observers_wfD(2) [OF ow, of d'] by (auto simp: b h modify_apply)
qed

lemma observers_wf_modify_head:
  assumes ow: "observers_wf s"
    and b: "bodyObservers s' = bodyObservers s"
    and h: "headObservers s' = modify d f (headObservers s)"
  shows "observers_wf s'"
proof (rule observers_wfI)
  fix d' ob
  assume "bodyObservers s' d' = Some ob"
  then show "observer_ok ob"
    using observers_wfD(1) [OF ow] by (auto simp: b)
next
  fix d'
  assume "headObservers s' d' \<noteq> None"
  then show "bodyObservers s' d' \<noteq> None"
    using observers_wfD(2) [OF ow, of d'] by (auto simp: b h modify_apply split: if_splits)
qed

lemma observers_wf_bodyCallback:
  assumes "observers_wf s"
  shows "observers_wf (bodyObserverCallback ms d s)"
proof -
  obtain els ch where c: "classify ms s = (els, ch)" by (cases "classify ms s")
  let ?s3 = "publishClassChanges ch (groupChildListChanges ch
               (publishStyleChanges ch (s\<lparr>elements := els\<rparr>)))"
  have "observers_wf ?s3 = observers_wf s"
    by (rule observers_wf_cong)
      (simp_all add: publishClass_fields publishStyle_fields groupChildListChanges_def
        groupAdded_frame)
  then have 3: "observers_wf ?s3" using assms by simp
  have "observers_wf (disconnectIfInactive d ?s3)"
  proof (cases "isActive ?s3")
    case True then show ?thesis using 3 by (simp add: disconnectIfInactive_def)
  next
    case False
    show ?thesis
      by (rule observers_wf_modify_body [OF 3, where f = disconnect and d = d])
        (simp_all add: observer_ok_ops disconnectIfInactive_def False)
  qed
  then show ?thesis by (simp add: bodyObserverCallback_def c)
qed

lemma observers_wf_stop:
  assumes ow: "observers_wf s"
  shows "observers_wf (snd (stopDocumentObservation doc s))"
proof -
  have 1: "observers_wf (snd (stopBody (doc_id doc) s))"
  proof (cases "bodyObservers s (doc_id doc)")
    case None then show ?thesis using ow by (simp add: stopBody_cases(1))
  next
    case (Some ob)
    show ?thesis
      by (rule observers_wf_modify_body [OF ow, where f = stopObserver and d = "doc_id doc"])
        (auto simp: observer_ok_ops stopBody_cases(2) [OF Some] setTimeout_def modify_def Some)
  qed
  let ?s = "snd (stopBody (doc_id doc) s)"
  have "observers_wf (stopHead doc ?s)"
  proof (cases "has_head doc \<and> headObservers ?s (doc_id doc) \<noteq> None")
    case False then show ?thesis using 1 by (auto simp: stopHead_cases(1))
  next
    case True
    then obtain ob where ob: "headObservers ?s (doc_id doc) = Some ob" by auto
    show ?thesis
      by (rule observers_wf_modify_head [OF 1, where f = stopObserver and d = "doc_id doc"])
        (insert True, auto simp: stopHead_def Let_def ob setTimeout_def modify_def)
  qed
  then show ?thesis by (simp add: stop_snd)
qed

lemma observers_wf_start:
  assumes ow: "observers_wf s"
  shows "observers_wf (snd (startDocumentObservation doc r s))"
proof (rule observers_wfI)
  fix d ob
  assume "bodyObservers (snd (startDocumentObservation doc r s)) d = Some ob"
  then show "observer_ok ob"
    using observers_wfD(1) [OF ow, of d ob]
    by (auto simp: startDocumentObservation_def startHead_def Let_def modify_apply
        get_or_create_apply observer_ok_ops split: if_splits option.splits
        dest: observers_wfD(1) [OF ow])
next
  fix d
  assume "headObservers (snd (startDocumentObservation doc r s)) d \<noteq> None"
  then show "bodyObservers (snd (startDocumentObservation doc r s)) d \<noteq> None"
    using observers_wfD(2) [OF ow, of d]
    by (auto simp: startDocumentObservation_def startHead_def Let_def modify_apply
        get_or_create_apply split: if_splits option.splits)
qed

subsection \<open>Every reachable state satisfies the invariants\<close>

lemma observers_wf_upd:
  "observers_wf (s\<lparr>updateObservers := b\<rparr>) = observers_wf s"
  "observers_wf (s\<lparr>clock := t\<rparr>) = observers_wf s"
  "observers_wf (s\<lparr>elements := els\<rparr>) = observers_wf s"
  "observers_wf (s\<lparr>rootTimestamp := ts\<rparr>) = observers_wf s"
  "observers_wf (s\<lparr>timers := tm\<rparr>) = observers_wf s"
  "observers_wf (s\<lparr>isActive := a, isComplex := c\<rparr>) = observers_wf s"
  "observers_wf (raise p s) = observers_wf s"
  by (simp_all add: observers_wf_def raise_def)

lemma observers_wf_headCallback: "observers_wf (headObserverCallback ms d s) = observers_wf s"
  by (simp add: headObserverCallback_def observers_wf_upd split: option.splits)

lemma observers_wf_run_task: "observers_wf s \<Longrightarrow> observers_wf (run_task tk s)"
  by (cases tk) (simp_all add: observers_wf_release observers_wf_bodyCallback
      observers_wf_headCallback)

lemma observers_wf_fire: "observers_wf s \<Longrightarrow> observers_wf (fire i s)"
  by (simp add: fire_def observers_wf_run_task observers_wf_upd split: option.splits)

lemma observers_wf_step:
  assumes ow: "observers_wf s"
  shows "observers_wf (step e s)"
proof (cases e)
  case (Fire i) then show ?thesis by (simp add: observers_wf_fire [OF ow])
next
  case (Mutate d ms)
  show ?thesis
    by (rule observers_wf_modify_body [OF ow, where f = "enqueue ms" and d = d])
      (simp_all add: Mutate observer_ok_ops)
next
  case (Deliver d)
  have "observers_wf (s\<lparr>bodyObservers := modify d takeRecords (bodyObservers s)\<rparr>)"
    by (rule observers_wf_modify_body [OF ow, where f = takeRecords and d = d])
      (simp_all add: observer_ok_ops)
  then show ?thesis using ow by (simp add: Deliver observers_wf_bodyCallback)
next
  case (MutateHead d ms)
  show ?thesis
    by (rule observers_wf_modify_head [OF ow, where f = "enqueue ms" and d = d])
      (simp_all add: MutateHead)
next
  case (DeliverHead d)
  have "observers_wf (s\<lparr>headObservers := modify d takeRecords (headObservers s)\<rparr>)"
    by (rule observers_wf_modify_head [OF ow, where f = takeRecords and d = d]) simp_all
  then show ?thesis using ow by (simp add: DeliverHead observers_wf_headCallback)
next
  case (DeliverUpdate d)
  then show ?thesis using ow
    by (simp add: updateObserverCallback_def observers_wf_upd split: list.splits)
next
  case (Start doc r) then show ?thesis by (simp add: observers_wf_start [OF ow])
next
  case (Stop doc) then show ?thesis by (simp add: observers_wf_stop [OF ow])
next
  case (StartUpdate doc)
  then show ?thesis using ow
    by (simp add: startDocumentUpdateObservation_def Let_def observers_wf_upd)
next
  case (StopUpdate doc)
  then show ?thesis using ow by (simp add: stopDocumentUpdateObservation_def observers_wf_upd)
next
  case (SettingsChanged a c)
  then show ?thesis using ow
    by (simp add: beforeSettingsChanged_def observers_wf_stop observers_wf_upd)
qed (simp_all add: ow observers_wf_upd)

lemma published_wf_upd:
  "published_wf (s\<lparr>bodyObservers := b\<rparr>) = published_wf s"
  "published_wf (s\<lparr>headObservers := b\<rparr>) = published_wf s"
  "published_wf (s\<lparr>updateObservers := b\<rparr>) = published_wf s"
  "published_wf (s\<lparr>clock := t\<rparr>) = published_wf s"
  "published_wf (s\<lparr>elements := els\<rparr>) = published_wf s"
  "published_wf (s\<lparr>rootTimestamp := ts\<rparr>) = published_wf s"
  "published_wf (s\<lparr>timers := tm\<rparr>) = published_wf s"
  "published_wf (s\<lparr>isActive := a, isComplex := c\<rparr>) = published_wf s"
  by (simp_all add: published_wf_def)

lemma raised_setTimeout: "raised (snd (setTimeout tk dl s)) = raised s"
  by (simp add: setTimeout_def)

lemma raised_stop: "raised (snd (stopDocumentObservation doc s)) = raised s"
  by (simp add: stop_snd stopHead_def stopBody_def Let_def raised_setTimeout
      split: option.splits)

lemma raised_start: "raised (snd (startDocumentObservation doc r s)) = raised s"
  by (simp add: startDocumentObservation_def startHead_def Let_def)

lemma published_wf_headCallback:
  "published_wf s \<Longrightarrow> published_wf (headObserverCallback ms d s)"
  by (simp add: headObserverCallback_def published_wf_raise split: option.splits)

lemma published_wf_run_task: "published_wf s \<Longrightarrow> published_wf (run_task tk s)"
  by (cases tk) (simp_all add: published_wf_release published_wf_bodyCallback
      published_wf_headCallback)

lemma published_wf_step:
  assumes pw: "published_wf s"
  shows "published_wf (step e s)"
proof (cases e)
  case (Fire i)
  then show ?thesis using pw
    by (simp add: fire_def published_wf_run_task published_wf_upd split: option.splits)
next
  case (Deliver d)
  then show ?thesis using pw by (simp add: published_wf_bodyCallback published_wf_upd)
next
  case (DeliverHead d)
  then show ?thesis using pw by (simp add: published_wf_headCallback published_wf_upd)
next
  case (DeliverUpdate d)
  then show ?thesis using pw
    by (simp add: updateObserverCallback_def published_wf_raise published_wf_upd
        split: list.splits)
next
  case (Start doc r)
  then show ?thesis using pw by (simp add: published_wf_cong [OF raised_start])
next
  case (Stop doc)
  then show ?thesis using pw by (simp add: published_wf_cong [OF raised_stop])
next
  case (StartUpdate doc)
  then show ?thesis using pw
    by (simp add: startDocumentUpdateObservation_def Let_def published_wf_def)
next
  case (StopUpdate doc)
  then show ?thesis using pw by (simp add: stopDocumentUpdateObservation_def published_wf_upd)
next
  case (SettingsChanged a c)
  then show ?thesis using pw
    by (simp add: beforeSettingsChanged_def published_wf_cong [OF raised_stop] published_wf_upd)
qed (simp_all add: pw published_wf_upd)

lemma inv_step: "inv s \<Longrightarrow> inv (step e s)"
  by (simp add: inv_def timers_wf_step handles_wf_step observers_wf_step published_wf_step)

lemma inv_init: "inv (init now active complex root els)"
  by (simp add: inv_def init_def timers_wf_def handles_wf_def observers_wf_def
      published_wf_def group_def)

lemma reachable_inv: "reachable s \<Longrightarrow> inv s"
  by (induction rule: reachable.induct) (simp_all add: inv_init inv_step)

lemma inv_run: "inv s \<Longrightarrow> inv (run evs s)"
  unfolding run_def by (induction evs arbitrary: s) (simp_all add: inv_step)

lemma reachable_run: "reachable s \<Longrightarrow> reachable (run evs s)"
  unfolding run_def by (induction evs arbitrary: s) (simp_all add: reachable_step)

subsection \<open>Stopping, draining and what the body callback raises\<close>

lemma example_buffering_fields:
  "group example_buffering = [1, 2]"
  "addedElementsGroup example_buffering = 1"
  "next_addr example_buffering = 2"
  "next_timer example_buffering = 3"
  "raised example_buffering = []"
  "timers example_buffering = [(1, 30, ReleaseSliding), (2, 100, ReleaseAbsolute)]"
  "lastAddedElementsGroupSlidingTimeout example_buffering = Some 1"
  "lastAddedElementsGroupAbsoluteTimeout example_buffering = Some 2"
  "clock example_buffering = 0"
  "heap example_buffering (Suc 0) = [1, 2]"
  by (simp_all add: example_buffering_def example_events_def example_defs)

lemma reachable_example_buffering: "reachable example_buffering"
  unfolding example_buffering_def example_observer_def
  by (rule reachable_run) (rule reachable_init)

lemma fire_not_due:
  assumes tw: "timers_wf s"
    and t: "timers s' = timers s @ (next_timer s, due, tk) # rest" and c: "clock s' < due"
  shows "fire (next_timer s) s' = s'"
proof -
  have n: "\<And>t. t \<in> set (timers s) \<Longrightarrow> fst t \<noteq> next_timer s"
    using timers_wfD(2) [OF tw] by fastforce
  have "\<And>ts. (\<And>t. t \<in> set ts \<Longrightarrow> fst t \<noteq> next_timer s)
          \<Longrightarrow> find (\<lambda>t. fst t = next_timer s) (ts @ (next_timer s, due, tk) # rest)
               = Some (next_timer s, due, tk)"
    subgoal for ts by (induction ts) auto
    done
  from this [OF n]
  have "find (\<lambda>t. fst t = next_timer s) (timers s @ (next_timer s, due, tk) # rest)
               = Some (next_timer s, due, tk)"
    by simp
  then show ?thesis using c by (simp add: fire_def t)
qed

lemma stopHead_fields:
  "bodyObservers (stopHead doc s) = bodyObservers s"
  "raised (stopHead doc s) = raised s"
  "elements (stopHead doc s) = elements s"
  "clock (stopHead doc s) = clock s"
  "heap (stopHead doc s) = heap s"
  "addedElementsGroup (stopHead doc s) = addedElementsGroup s"
  "\<exists>rest. timers (stopHead doc s) = timers s @ rest \<and> filter is_body_drain rest = []"
  by (auto simp: stopHead_def Let_def setTimeout_def split: option.splits)

lemma stopBody_fields:
  assumes "bodyObservers s d = Some ob"
  shows "fst (stopBody d s) = obs_state ob"
    and "bodyObservers (snd (stopBody d s)) = (bodyObservers s)(d \<mapsto> stopObserver ob)"
    and "raised (snd (stopBody d s)) = raised s"
    and "elements (snd (stopBody d s)) = elements s"
    and "clock (snd (stopBody d s)) = clock s"
    and "heap (snd (stopBody d s)) = heap s"
    and "addedElementsGroup (snd (stopBody d s)) = addedElementsGroup s"
    and "timers (snd (stopBody d s)) = timers s @ [(next_timer s, clock s + 1, BodyDrain d (records ob))]"
  by (simp_all add: stopBody_cases(2) [OF assms] setTimeout_def)

lemma bodyCallback_Nil:
  "bodyObserverCallback [] d s = disconnectIfInactive d s"
  by (simp add: bodyObserverCallback_def classify_def no_changes_def publishStyleChanges_def
      publishClassChanges_def groupChildListChanges_def)

lemma reachable_example_observing: "reachable example_observing"
  unfolding example_observing_def example_observer_def
  by (rule reachable_run) (rule reachable_init)

lemma reachable_example_stopped: "reachable example_stopped"
  unfolding example_stopped_def by (rule reachable_step) (rule reachable_example_observing)

lemma example_observing_fields:
  "bodyObservers example_observing 0 =
     Some \<lparr>observing = Some BodyObserverConfig, records = [Attributes 1 (Some ''class'')],
           obs_state = Some Active\<rparr>"
  "raised example_observing = []"
  "timers example_observing = []"
  "next_timer example_observing = 1"
  "clock example_observing = 0"
  by (simp_all add: example_observing_def example_defs)

lemma example_stopped_fields:
  "bodyObservers example_stopped 0 =
     Some \<lparr>observing = None, records = [], obs_state = Some Stopped\<rparr>"
  "raised example_stopped = []"
  "timers example_stopped =
     [(1, 1, BodyDrain 0 [Attributes 1 (Some ''class'')]), (2, 1, HeadDrain 0 [])]"
  "next_timer example_stopped = 3"
  "clock example_stopped = 0"
  by (simp_all add: example_stopped_def example_observing_def example_defs)

lemma raised_bodyCallback:
  assumes "classify ms s = (els, ch)"
  shows "raised (bodyObserverCallback ms d s) =
           raised s
           @ (if styleChanges ch \<noteq> [] then [StyleChanged (styleChanges ch)] else [])
           @ (if childListChanges ch \<noteq> []
                 \<and> length (new_Set (group s @ childListChanges ch)) > addedElementsGroupMinimumSize
              then [ElementsAdded (next_addr s) (new_Set (group s @ childListChanges ch))]
              else [])
           @ (if classChanges ch \<noteq> [] then [ClassChanged (classChanges ch)] else [])"
proof -
  let ?s1 = "publishStyleChanges ch (s\<lparr>elements := els\<rparr>)"
  have g: "group ?s1 = group s" "next_addr ?s1 = next_addr s"
    by (simp_all add: group_def publishStyle_fields)
  have "raised (groupChildListChanges ch ?s1) =
          raised ?s1
          @ (if childListChanges ch \<noteq> []
                 \<and> length (new_Set (group s @ childListChanges ch)) > addedElementsGroupMinimumSize
              then [ElementsAdded (next_addr s) (new_Set (group s @ childListChanges ch))]
              else [])"
  proof (cases "length (new_Set (group ?s1 @ childListChanges ch)) > addedElementsGroupMinimumSize")
    case True
    show ?thesis
      using True by (simp add: groupChildListChanges_def groupAdded_flush(1) [OF True] g)
  next
    case False
    show ?thesis
      using False by (simp add: groupChildListChanges_def groupAdded_buffer(1) [OF False] g)
  qed
  then show ?thesis
    by (simp add: bodyObserverCallback_def assms disconnectIfInactive_fields publishClass_fields
        publishStyle_fields)
qed

lemma reachable_example_delivered: "reachable example_delivered"
  unfolding example_delivered_def by (rule reachable_step) (rule reachable_example_observing)

lemma example_delivered_fields:
  "raised example_delivered = [ClassChanged [1]]"
  "group example_delivered = []"
  by (simp_all add: example_delivered_def example_observing_def example_defs)

subsection \<open>Classifying one attribute record\<close>

lemma eligible_throttle: "eligible (throttle now el) = eligible el"
  by (simp add: eligible_def throttle_def)

lemma classify_single_attribute:
  "classify [Attributes t a] s =
     ((elements s)(t := throttle (clock s) (elements s t)),
      if notThrottled (throttle (clock s) (elements s t)) \<and> eligible (elements s t)
      then (if a = Some ''class'' then no_changes\<lparr>classChanges := [t]\<rparr>
            else if (a = Some ''style'' \<or> a = Some ''fill'' \<or> a = Some ''stroke'')
                    \<and> isComplex s
            then no_changes\<lparr>styleChanges := [t]\<rparr>
            else no_changes)
      else no_changes)"
  by (simp add: classify_def Let_def no_changes_def set_add_def eligible_throttle)

subsection \<open>The update observer on concrete batches\<close>

lemma example_updating_fields:
  "pending (updateObservers example_updating) 0
     = [Attributes 1 (Some ''ml-update''), Attributes 2 (Some ''ml-update'')]"
  "pending (updateObservers example_updating_same) 0
     = [Attributes 1 (Some ''ml-update''), Attributes 1 (Some ''ml-update'')]"
  "raised example_updating = []"
  "raised example_updating_same = []"
  by (simp_all add: example_updating_def example_updating_same_def example_defs)

subsection \<open>A capped counter under the classification loop\<close>

lemma or_zero_throttle:
  "or_zero (mlMutationThrottledCount el) \<le> or_zero (mlMutationThrottledCount (throttle now el))"
  by (simp add: throttle_def or_zero_def)

lemma capped_is_throttled:
  "maxMutationsCount \<le> or_zero (mlMutationThrottledCount el) \<Longrightarrow> \<not> notThrottled el"
  by (auto simp: notThrottled_def truthy_def or_zero_def maxMutationsCount_def
      split: option.splits)

lemma process_mutation_capped:
  assumes "maxMutationsCount \<le> or_zero (mlMutationThrottledCount (els t))"
    and "process_mutation now cx m (els, ch) = (els', ch')"
  shows "or_zero (mlMutationThrottledCount (els t))
           \<le> or_zero (mlMutationThrottledCount (els' t))"
    and "t \<in> set (classChanges ch') \<Longrightarrow> t \<in> set (classChanges ch)"
    and "t \<in> set (styleChanges ch') \<Longrightarrow> t \<in> set (styleChanges ch)"
proof -
  have c: "\<not> notThrottled (throttle now (els t))"
    using assms(1) or_zero_throttle [of "els t" now]
    by (intro capped_is_throttled) linarith
  show "or_zero (mlMutationThrottledCount (els t))
           \<le> or_zero (mlMutationThrottledCount (els' t))"
    using assms(2) or_zero_throttle [of "els t" now]
    by (cases m) (auto simp: Let_def split: if_splits)
  show "t \<in> set (classChanges ch') \<Longrightarrow> t \<in> set (classChanges ch)"
    using assms(2) c
    by (cases m) (auto simp: Let_def set_set_add split: if_splits)
  show "t \<in> set (styleChanges ch') \<Longrightarrow> t \<in> set (styleChanges ch)"
    using assms(2) c
    by (cases m) (auto simp: Let_def set_set_add split: if_splits)
qed

lemma fold_process_capped:
  assumes "maxMutationsCount \<le> or_zero (mlMutationThrottledCount (els t))"
    and "fold (process_mutation now cx) ms (els, ch) = (els', ch')"
  shows "or_zero (mlMutationThrottledCount (els t))
           \<le> or_zero (mlMutationThrottledCount (els' t))
         \<and> (t \<in> set (classChanges ch') \<longrightarrow> t \<in> set (classChanges ch))
         \<and> (t \<in> set (styleChanges ch') \<longrightarrow> t \<in> set (styleChanges ch))"
  using assms
proof (induction ms arbitrary: els ch)
  case Nil
  then show ?case by simp
next
  case (Cons m ms)
  obtain els1 ch1 where s: "process_mutation now cx m (els, ch) = (els1, ch1)"
    by (cases "process_mutation now cx m (els, ch)")
  note p = process_mutation_capped [OF Cons.prems(1) s]
  have cap: "maxMutationsCount \<le> or_zero (mlMutationThrottledCount (els1 t))"
    using Cons.prems(1) p(1) by linarith
  have f: "fold (process_mutation now cx) ms (els1, ch1) = (els', ch')"
    using Cons.prems(2) by (simp add: s)
  show ?case
    using Cons.IH [OF cap f] p by auto
qed

lemma count_hide: "mlMutationThrottledCount (hide el) = mlMutationThrottledCount el"
  by (simp add: hide_def)

lemma count_hideAll:
  "mlMutationThrottledCount (elements (hideAll tags s) t)
     = mlMutationThrottledCount (elements s t)"
proof -
  have "\<And>els. mlMutationThrottledCount
            (fold (\<lambda>t els. els(t := hide (els t))) tags els t)
          = mlMutationThrottledCount (els t)"
    subgoal for els by (induction tags arbitrary: els) (simp_all add: count_hide)
    done
  then show ?thesis by (simp add: hideAll_def)
qed

lemma count_groupAdded:
  "mlMutationThrottledCount (elements (groupAddedElements added s) t)
     = mlMutationThrottledCount (elements s t)"
  by (simp add: groupAddedElements_def Let_def release_fields armAbsolute_def armSliding_def
      setTimeout_def mergeGroup_def clearTimeout_fields count_hideAll clearTimeout_def
      split: option.splits)

lemma count_bodyCallback:
  assumes "classify ms s = (els, ch)"
  shows "mlMutationThrottledCount (elements (bodyObserverCallback ms d s) t)
           = mlMutationThrottledCount (els t)"
  by (simp add: bodyObserverCallback_def assms disconnectIfInactive_fields publishClass_fields
      groupChildListChanges_def count_groupAdded publishStyle_fields)

lemma example_storming_fields:
  "elements example_storming e = storming_element"
  "mlMutationThrottledCount storming_element = Some 300"
  "mlTimestamp storming_element = Some 1000"
  "clock example_storming = 5000"
  "raised example_storming = []"
  by (simp_all add: example_storming_def storming_element_def example_defs)

subsection \<open>The pending absolute timer under add and callback\<close>

lemma absolute_pending_mono:
  assumes "absolute_pending t0 i s"
    and "lastAddedElementsGroupAbsoluteTimeout s' = lastAddedElementsGroupAbsoluteTimeout s"
    and "set (timers s) \<subseteq> set (timers s')" and "clock s' = clock s"
  shows "absolute_pending t0 i s'"
  using assms unfolding absolute_pending_def by auto

lemma absolute_pendingD:
  assumes "absolute_pending t0 i s"
  shows "lastAddedElementsGroupAbsoluteTimeout s = Some i"
    and "(i, t0 + addedElementsGroupAbsoluteTimeoutMS, ReleaseAbsolute) \<in> set (timers s)"
    and "clock s \<le> t0 + addedElementsGroupAbsoluteTimeoutMS"
  using assms unfolding absolute_pending_def by blast+

lemma flushes_raised:
  "raised s' = raised s @ xs \<Longrightarrow>
     flushes s' = flushes s
       + length (filter (\<lambda>p. case p of ElementsAdded a ys \<Rightarrow> True | _ \<Rightarrow> False) xs)"
  by (simp add: flushes_def)

lemma flushes_same: "raised s' = raised s \<Longrightarrow> flushes s' = flushes s"
  by (simp add: flushes_def)

lemma flushes_release_open:
  "group s \<noteq> [] \<Longrightarrow> flushes (releaseAddedElementsGroup s) = flushes s + 1"
  by (simp add: flushes_def release_fields)

lemma groupAdded_keeps_pending:
  assumes tw: "timers_wf s" and hw: "handles_wf s" and ap: "absolute_pending t0 i s"
  shows "absolute_pending t0 i (groupAddedElements xs s)
         \<or> flushes s < flushes (groupAddedElements xs s)"
proof (cases "length (new_Set (group s @ xs)) > addedElementsGroupMinimumSize")
  case True
  then show ?thesis by (simp add: flushes_def groupAdded_flush(1) [OF True])
next
  case False
  note a = absolute_pendingD [OF ap]
  have nz: "0 < i" and ns: "lastAddedElementsGroupSlidingTimeout s \<noteq> Some i"
    using handles_differ [OF tw hw a(1)] by blast+
  have nf: "\<not> falsy_handle (lastAddedElementsGroupAbsoluteTimeout s)"
    using nz by (simp add: a(1) falsy_handle_def)
  have "absolute_pending t0 i (groupAddedElements xs s)"
    unfolding absolute_pending_def
    using a ns nf by (auto simp: groupAdded_buffer [OF False] groupAdded_frame)
  then show ?thesis by blast
qed

lemma callback_keeps_pending:
  assumes tw: "timers_wf s" and hw: "handles_wf s" and ap: "absolute_pending t0 i s"
  shows "absolute_pending t0 i (bodyObserverCallback ms d s)
         \<or> flushes s < flushes (bodyObserverCallback ms d s)"
proof -
  obtain els ch where c: "classify ms s = (els, ch)" by (cases "classify ms s")
  let ?s1 = "publishStyleChanges ch (s\<lparr>elements := els\<rparr>)"
  let ?s2 = "groupChildListChanges ch ?s1"
  have tw1: "timers_wf ?s1"
    using tw by (simp add: timers_wf_def publishStyle_fields)
  have "handles_wf ?s1 = handles_wf s"
    by (rule handles_wf_cong) (simp_all add: publishStyle_fields)
  then have hw1: "handles_wf ?s1" using hw by simp
  have ap1: "absolute_pending t0 i ?s1"
    by (rule absolute_pending_mono [OF ap]) (simp_all add: publishStyle_fields)
  have f1: "flushes ?s1 = flushes s"
    by (simp add: flushes_def publishStyle_fields)
  have 2: "absolute_pending t0 i ?s2 \<or> flushes ?s1 < flushes ?s2"
    using groupAdded_keeps_pending [OF tw1 hw1 ap1] ap1
    by (simp add: groupChildListChanges_def)
  have cb: "bodyObserverCallback ms d s = disconnectIfInactive d (publishClassChanges ch ?s2)"
    by (simp add: bodyObserverCallback_def c)
  have f2: "flushes (bodyObserverCallback ms d s) = flushes ?s2"
    by (simp add: cb flushes_def disconnectIfInactive_fields publishClass_fields)
  have m: "absolute_pending t0 i ?s2 \<Longrightarrow> absolute_pending t0 i (bodyObserverCallback ms d s)"
    by (erule absolute_pending_mono)
      (simp_all add: cb disconnectIfInactive_fields publishClass_fields)
  show ?thesis using 2 m f1 f2 by auto
qed

subsection \<open>The pending absolute timer when a timer fires\<close>

lemma handles_wf_remove:
  assumes tw: "timers_wf s" and hw: "handles_wf s"
    and f: "(i, due, tk) \<in> set (timers s)"
    and nr: "tk \<noteq> ReleaseSliding" "tk \<noteq> ReleaseAbsolute"
  shows "handles_wf (s\<lparr>timers := filter (\<lambda>t. fst t \<noteq> i) (timers s)\<rparr>)"
    (is "handles_wf ?s")
proof (rule handles_wfI)
  fix k d
  show "(k, d, ReleaseSliding) \<in> set (timers ?s)
          \<Longrightarrow> lastAddedElementsGroupSlidingTimeout ?s = Some k"
    using handles_wfD(1) [OF hw, of k d] by simp
  show "(k, d, ReleaseAbsolute) \<in> set (timers ?s)
          \<Longrightarrow> lastAddedElementsGroupAbsoluteTimeout ?s = Some k"
    using handles_wfD(2) [OF hw, of k d] by simp
next
  fix k
  show "\<exists>d. (k, d, ReleaseSliding) \<in> set (timers ?s)"
    if "lastAddedElementsGroupSlidingTimeout ?s = Some k"
  proof -
    have "lastAddedElementsGroupSlidingTimeout s = Some k" using that by simp
    then obtain d where d: "(k, d, ReleaseSliding) \<in> set (timers s)"
      using handles_wfD(3) [OF hw, of k] by blast
    have "k \<noteq> i"
      using same_handle [OF timers_wfD(3) [OF tw] f, of "(d, ReleaseSliding)"] d nr by auto
    then show ?thesis using d by auto
  qed
  show "\<exists>d. (k, d, ReleaseAbsolute) \<in> set (timers ?s)"
    if "lastAddedElementsGroupAbsoluteTimeout ?s = Some k"
  proof -
    have "lastAddedElementsGroupAbsoluteTimeout s = Some k" using that by simp
    then obtain d where d: "(k, d, ReleaseAbsolute) \<in> set (timers s)"
      using handles_wfD(4) [OF hw, of k] by blast
    have "k \<noteq> i"
      using same_handle [OF timers_wfD(3) [OF tw] f, of "(d, ReleaseAbsolute)"] d nr by auto
    then show ?thesis using d by auto
  qed
next
  show "group ?s = [] \<longleftrightarrow> lastAddedElementsGroupAbsoluteTimeout ?s = None"
    using handles_wfD(5) [OF hw] by (simp add: group_def)
  show "lastAddedElementsGroupSlidingTimeout ?s = None
          \<longleftrightarrow> lastAddedElementsGroupAbsoluteTimeout ?s = None"
    using handles_wfD(6) [OF hw] by simp
  show "addedElementsGroup ?s < next_addr ?s"
    using handles_wfD(7) [OF hw] by simp
qed

lemma pending_group_open:
  assumes "handles_wf s" and "absolute_pending t0 i s"
  shows "group s \<noteq> []"
  using handles_wfD(5) [OF assms(1)] absolute_pendingD(1) [OF assms(2)] by simp

lemma fire_keeps_pending:
  assumes tw: "timers_wf s" and hw: "handles_wf s" and ap: "absolute_pending t0 i s"
  shows "absolute_pending t0 i (fire j s) \<or> flushes s < flushes (fire j s)"
proof (cases "find (\<lambda>t. fst t = j) (timers s)")
  case None
  then show ?thesis using ap by (simp add: fire_def)
next
  case (Some x)
  obtain k due tk where x: "x = (k, due, tk)" by (cases x)
  note f = find_handle [OF Some [unfolded x]]
  let ?s = "s\<lparr>timers := filter (\<lambda>t. fst t \<noteq> j) (timers s)\<rparr>"
  have tw': "timers_wf ?s"
    by (rule timers_wf_filter [OF tw]) simp_all
  have g: "group ?s = group s" by (simp add: group_def)
  have fl: "flushes ?s = flushes s" by (simp add: flushes_def)
  note a = absolute_pendingD [OF ap]
  have rel: "flushes s < flushes (releaseAddedElementsGroup ?s)"
    using flushes_release_open [of ?s] pending_group_open [OF hw ap] by (simp add: g fl)
  have keep: "absolute_pending t0 i ?s \<and> handles_wf ?s"
    if nr: "tk \<noteq> ReleaseSliding" "tk \<noteq> ReleaseAbsolute"
  proof -
    have "i \<noteq> j"
      using same_handle [OF timers_wfD(3) [OF tw] f(2),
          of "(t0 + addedElementsGroupAbsoluteTimeoutMS, ReleaseAbsolute)"] a(2) nr
      by auto
    then have "absolute_pending t0 i ?s"
      using a unfolding absolute_pending_def by auto
    then show ?thesis using handles_wf_remove [OF tw hw f(2) nr] by simp
  qed
  have "absolute_pending t0 i (run_task tk ?s) \<or> flushes s < flushes (run_task tk ?s)"
  proof (cases tk)
    case ReleaseSliding then show ?thesis using rel by simp
  next
    case ReleaseAbsolute then show ?thesis using rel by simp
  next
    case (BodyDrain d ms)
    then show ?thesis
      using callback_keeps_pending [OF tw', of t0 i ms d] keep by (auto simp: fl)
  next
    case (HeadDrain d ms)
    have "absolute_pending t0 i (headObserverCallback ms d ?s)"
      using keep HeadDrain
      by (auto simp: headObserverCallback_def raise_def absolute_pending_def
          split: option.splits)
    then show ?thesis using HeadDrain by simp
  qed
  then show ?thesis
    using ap by (simp add: fire_def Some x)
qed

subsection \<open>The pending absolute timer under every punctual event\<close>

lemma stop_acc_fields:
  "lastAddedElementsGroupAbsoluteTimeout (snd (stopDocumentObservation doc s))
     = lastAddedElementsGroupAbsoluteTimeout s"
  "lastAddedElementsGroupSlidingTimeout (snd (stopDocumentObservation doc s))
     = lastAddedElementsGroupSlidingTimeout s"
  "clock (snd (stopDocumentObservation doc s)) = clock s"
  "heap (snd (stopDocumentObservation doc s)) = heap s"
  "addedElementsGroup (snd (stopDocumentObservation doc s)) = addedElementsGroup s"
  "set (timers s) \<subseteq> set (timers (snd (stopDocumentObservation doc s)))"
  by (auto simp: stop_snd stopHead_def stopBody_def Let_def setTimeout_def split: option.splits)

lemma before_acc_fields:
  "lastAddedElementsGroupAbsoluteTimeout (beforeSettingsChanged s)
     = lastAddedElementsGroupAbsoluteTimeout s"
  "lastAddedElementsGroupSlidingTimeout (beforeSettingsChanged s)
     = lastAddedElementsGroupSlidingTimeout s"
  "clock (beforeSettingsChanged s) = clock s"
  "heap (beforeSettingsChanged s) = heap s"
  "addedElementsGroup (beforeSettingsChanged s) = addedElementsGroup s"
  "set (timers s) \<subseteq> set (timers (beforeSettingsChanged s))"
  "raised (beforeSettingsChanged s) = raised s"
  using stop_acc_fields(6) [of s "rootDocument s"]
  by (auto simp: beforeSettingsChanged_def stop_acc_fields(1-5) raised_stop)

lemma absolute_pending_acc:
  assumes "absolute_pending t0 i s" and "accumulator s' = accumulator s" and "clock s' = clock s"
  shows "absolute_pending t0 i s'"
  using assms unfolding absolute_pending_def accumulator_def by auto

lemma step_keeps_pending:
  assumes tw: "timers_wf s" and hw: "handles_wf s" and ap: "absolute_pending t0 i s"
    and pu: "punctual e s"
  shows "absolute_pending t0 i (step e s) \<or> flushes s < flushes (step e s)"
proof (cases e)
  case (Tick t)
  have "t \<le> t0 + addedElementsGroupAbsoluteTimeoutMS"
    using pu absolute_pendingD(2) [OF ap] by (fastforce simp: Tick)
  then show ?thesis
    using ap by (simp add: Tick absolute_pending_def)
next
  case (Fire j)
  then show ?thesis using fire_keeps_pending [OF tw hw ap] by simp
next
  case (Mutate d ms)
  then show ?thesis using ap by (simp add: absolute_pending_def)
next
  case (Deliver d)
  let ?s = "s\<lparr>bodyObservers := modify d takeRecords (bodyObservers s)\<rparr>"
  have 1: "timers_wf ?s" using tw by (simp add: timers_wf_def)
  have 2: "handles_wf ?s" using hw by (simp add: handles_wf_upd)
  have 3: "absolute_pending t0 i ?s" using ap by (simp add: absolute_pending_def)
  have 4: "flushes ?s = flushes s" by (simp add: flushes_def)
  show ?thesis
    using callback_keeps_pending [OF 1 2 3] ap by (simp add: Deliver 4)
next
  case (MutateHead d ms)
  then show ?thesis using ap by (simp add: absolute_pending_def)
next
  case (DeliverHead d)
  then show ?thesis using ap
    by (simp add: absolute_pending_def headObserverCallback_def raise_def split: option.splits)
next
  case (MutateUpdate d ms)
  then show ?thesis using ap by (simp add: absolute_pending_def)
next
  case (DeliverUpdate d)
  then show ?thesis using ap
    by (simp add: absolute_pending_def updateObserverCallback_def raise_def split: list.splits)
next
  case (Start doc r)
  have "absolute_pending t0 i (snd (startDocumentObservation doc r s))"
    by (rule absolute_pending_acc [OF ap start_acc])
      (simp add: startDocumentObservation_def startHead_def Let_def)
  then show ?thesis by (simp add: Start)
next
  case (Stop doc)
  have "absolute_pending t0 i (snd (stopDocumentObservation doc s))"
    by (rule absolute_pending_mono [OF ap]) (rule stop_acc_fields)+
  then show ?thesis by (simp add: Stop)
next
  case (StartUpdate doc)
  have "absolute_pending t0 i (snd (startDocumentUpdateObservation doc s))"
    by (rule absolute_pending_acc [OF ap startUpdate_acc])
      (simp add: startDocumentUpdateObservation_def Let_def)
  then show ?thesis by (simp add: StartUpdate)
next
  case (StopUpdate doc)
  have "absolute_pending t0 i (stopDocumentUpdateObservation doc s)"
    by (rule absolute_pending_acc [OF ap stopUpdate_acc])
      (simp add: stopDocumentUpdateObservation_def)
  then show ?thesis by (simp add: StopUpdate)
next
  case (SettingsChanged a c)
  have 1: "absolute_pending t0 i (s\<lparr>isActive := a, isComplex := c\<rparr>)"
    using ap by (simp add: absolute_pending_def)
  have "absolute_pending t0 i (beforeSettingsChanged (s\<lparr>isActive := a, isComplex := c\<rparr>))"
    by (rule absolute_pending_mono [OF 1]) (rule before_acc_fields)+
  then show ?thesis by (simp add: SettingsChanged)
next
  case (WriteElement x el)
  then show ?thesis using ap by (simp add: absolute_pending_def)
next
  case (WriteRootTimestamp ts)
  then show ?thesis using ap by (simp add: absolute_pending_def)
qed

subsection \<open>Flushes only grow\<close>

lemma flushes_bodyCallback_mono: "flushes s \<le> flushes (bodyObserverCallback ms d s)"
  by (cases "classify ms s") (simp add: flushes_def raised_bodyCallback)

lemma flushes_run_task_mono: "flushes s \<le> flushes (run_task tk s)"
proof (cases tk)
  case (BodyDrain d ms)
  then show ?thesis by (simp add: flushes_bodyCallback_mono)
qed (simp_all add: flushes_def release_fields headObserverCallback_def
      raise_def split: option.splits)

lemma flushes_fire_mono: "flushes s \<le> flushes (fire j s)"
proof -
  have "flushes (s\<lparr>timers := filter (\<lambda>t. fst t \<noteq> j) (timers s)\<rparr>) = flushes s"
    by (simp add: flushes_def)
  then show ?thesis
    using flushes_run_task_mono [of "s\<lparr>timers := filter (\<lambda>t. fst t \<noteq> j) (timers s)\<rparr>"]
    by (auto simp: fire_def split: option.splits)
qed

lemma flushes_step_mono: "flushes s \<le> flushes (step e s)"
proof (cases e)
  case (Fire j) then show ?thesis by (simp add: flushes_fire_mono)
next
  case (Deliver d)
  have "flushes (s\<lparr>bodyObservers := modify d takeRecords (bodyObservers s)\<rparr>) = flushes s"
    by (simp add: flushes_def)
  then show ?thesis
    using flushes_bodyCallback_mono
      [of "s\<lparr>bodyObservers := modify d takeRecords (bodyObservers s)\<rparr>"]
    by (simp add: Deliver)
next
  case (DeliverHead d)
  then show ?thesis
    by (simp add: flushes_def headObserverCallback_def raise_def split: option.splits)
next
  case (DeliverUpdate d)
  then show ?thesis
    by (simp add: flushes_def updateObserverCallback_def raise_def split: list.splits)
next
  case (Start doc r) then show ?thesis by (simp add: flushes_same [OF raised_start])
next
  case (Stop doc) then show ?thesis by (simp add: flushes_same [OF raised_stop])
next
  case (StartUpdate doc)
  then show ?thesis by (simp add: flushes_def startDocumentUpdateObservation_def Let_def)
next
  case (StopUpdate doc)
  then show ?thesis by (simp add: flushes_def stopDocumentUpdateObservation_def)
next
  case (SettingsChanged a c)
  then show ?thesis by (simp add: flushes_def before_acc_fields)
qed (simp_all add: flushes_def)

lemma flushes_run_mono: "flushes s \<le> flushes (run evs s)"
  unfolding run_def
proof (induction evs arbitrary: s)
  case Nil
  show ?case by simp
next
  case (Cons e evs)
  show ?case
    using Cons [of "step e s"] flushes_step_mono [of s e] by simp
qed

lemma run_keeps_pending:
  assumes "inv s" and "absolute_pending t0 i s" and "punctual_run evs s"
  shows "absolute_pending t0 i (run evs s) \<or> flushes s < flushes (run evs s)"
  using assms
proof (induction evs arbitrary: s)
  case Nil
  then show ?case by (simp add: run_def)
next
  case (Cons e evs)
  have tw: "timers_wf s" and hw: "handles_wf s"
    using Cons.prems(1) by (simp_all add: inv_def)
  have pu: "punctual e s" and pr: "punctual_run evs (step e s)"
    using Cons.prems(3) by simp_all
  have r: "run (e # evs) s = run evs (step e s)" by (simp add: run_def)
  from step_keeps_pending [OF tw hw Cons.prems(2) pu]
  show ?case
  proof
    assume a: "absolute_pending t0 i (step e s)"
    show ?thesis
      using Cons.IH [OF inv_step [OF Cons.prems(1)] a pr] flushes_step_mono [of s e]
      by (auto simp: r)
  next
    assume "flushes s < flushes (step e s)"
    then show ?thesis
      using flushes_run_mono [of "step e s" evs] by (simp add: r)
  qed
qed

lemma only_absolute:
  assumes tw: "timers_wf s" and hw: "handles_wf s" and ap: "absolute_pending t0 i s"
    and m: "(j, d, ReleaseAbsolute) \<in> set (timers s)"
  shows "j = i \<and> d = t0 + addedElementsGroupAbsoluteTimeoutMS"
proof -
  have "lastAddedElementsGroupAbsoluteTimeout s = Some j"
    using handles_wfD(2) [OF hw m] .
  then have j: "j = i" using absolute_pendingD(1) [OF ap] by simp
  have "(d, ReleaseAbsolute) = (t0 + addedElementsGroupAbsoluteTimeoutMS, ReleaseAbsolute)"
    using same_handle [OF timers_wfD(3) [OF tw] m [unfolded j] absolute_pendingD(2) [OF ap]] .
  then show ?thesis using j by simp
qed

subsection \<open>Opening a group and flushing it\<close>

lemma group_groupAdded_flush:
  assumes "length (new_Set (group s @ xs)) > addedElementsGroupMinimumSize"
  shows "group (groupAddedElements xs s) = []"
  by (simp add: group_def groupAdded_frame groupAdded_flush(2) [OF assms])

lemma groupAdded_opens:
  assumes hw: "handles_wf s" and e: "group s = []" and o: "group (groupAddedElements xs s) \<noteq> []"
  shows "absolute_pending (clock s) (next_timer s + 1) (groupAddedElements xs s)"
proof (cases "length (new_Set (group s @ xs)) > addedElementsGroupMinimumSize")
  case True
  then show ?thesis using o group_groupAdded_flush [OF True] by simp
next
  case False
  have "lastAddedElementsGroupAbsoluteTimeout s = None"
    using handles_wfD(5) [OF hw] e by simp
  then show ?thesis
    unfolding absolute_pending_def
    by (simp add: groupAdded_buffer [OF False] groupAdded_frame falsy_handle_def
        addedElementsGroupAbsoluteTimeoutMS_def)
qed

lemma callback_group:
  assumes "classify ms s = (els, ch)"
  shows "group (bodyObserverCallback ms d s) =
           group (groupChildListChanges ch (publishStyleChanges ch (s\<lparr>elements := els\<rparr>)))"
  by (simp add: bodyObserverCallback_def assms group_def disconnectIfInactive_fields
      publishClass_fields)

lemma callback_opens:
  assumes hw: "handles_wf s" and e: "group s = []"
    and o: "group (bodyObserverCallback ms d s) \<noteq> []"
  shows "absolute_pending (clock s) (next_timer s + 1) (bodyObserverCallback ms d s)"
proof -
  obtain els ch where c: "classify ms s = (els, ch)" by (cases "classify ms s")
  let ?s1 = "publishStyleChanges ch (s\<lparr>elements := els\<rparr>)"
  let ?s2 = "groupChildListChanges ch ?s1"
  have "handles_wf ?s1 = handles_wf s"
    by (rule handles_wf_cong) (simp_all add: publishStyle_fields)
  then have hw1: "handles_wf ?s1" using hw by simp
  have e1: "group ?s1 = []" using e by (simp add: group_def publishStyle_fields)
  have o2: "group ?s2 \<noteq> []" using o by (simp add: callback_group [OF c])
  then have ne: "childListChanges ch \<noteq> []"
    using e1 by (auto simp: groupChildListChanges_def)
  have "absolute_pending (clock ?s1) (next_timer ?s1 + 1)
          (groupAddedElements (childListChanges ch) ?s1)"
    using groupAdded_opens [OF hw1 e1] o2 ne by (simp add: groupChildListChanges_def)
  then have 2: "absolute_pending (clock s) (next_timer s + 1) ?s2"
    using ne by (simp add: groupChildListChanges_def publishStyle_fields)
  have cb: "bodyObserverCallback ms d s = disconnectIfInactive d (publishClassChanges ch ?s2)"
    by (simp add: bodyObserverCallback_def c)
  show ?thesis
    by (rule absolute_pending_mono [OF 2])
      (simp_all add: cb disconnectIfInactive_fields publishClass_fields)
qed

lemma callback_flush_clears:
  assumes "flushes s < flushes (bodyObserverCallback ms d s)"
  shows "group (bodyObserverCallback ms d s) = []"
proof -
  obtain els ch where c: "classify ms s = (els, ch)" by (cases "classify ms s")
  let ?s1 = "publishStyleChanges ch (s\<lparr>elements := els\<rparr>)"
  have g1: "group ?s1 = group s" by (simp add: group_def publishStyle_fields)
  have b: "childListChanges ch \<noteq> []
           \<and> length (new_Set (group s @ childListChanges ch)) > addedElementsGroupMinimumSize"
    using assms by (auto simp: flushes_def raised_bodyCallback [OF c] split: if_splits)
  then have "length (new_Set (group ?s1 @ childListChanges ch)) > addedElementsGroupMinimumSize"
    by (simp add: g1)
  from group_groupAdded_flush [OF this] b
  show ?thesis by (simp add: callback_group [OF c] groupChildListChanges_def)
qed

lemma empty_group_no_release_timers:
  assumes hw: "handles_wf s" and e: "group s = []"
  shows "lastAddedElementsGroupAbsoluteTimeout s = None"
    and "lastAddedElementsGroupSlidingTimeout s = None"
    and "filter is_release (timers s) = []"
proof -
  show a: "lastAddedElementsGroupAbsoluteTimeout s = None"
    using handles_wfD(5) [OF hw] e by simp
  show b: "lastAddedElementsGroupSlidingTimeout s = None"
    using handles_wfD(6) [OF hw] a by simp
  have "\<not> is_release t" if "t \<in> set (timers s)" for t
  proof -
    obtain i d k where t: "t = (i, d, k)" by (cases t)
    show ?thesis
      using that handles_wfD(1) [OF hw, of i d] handles_wfD(2) [OF hw, of i d] a b
      by (cases k) (auto simp: t)
  qed
  then show "filter is_release (timers s) = []"
    by (simp add: filter_empty_conv)
qed

subsection \<open>Events that open or flush a group\<close>

lemma group_acc: "accumulator s' = accumulator s \<Longrightarrow> group s' = group s"
  by (simp add: accumulator_def group_def)

lemma group_stop: "group (snd (stopDocumentObservation doc s)) = group s"
  by (simp add: group_def stop_acc_fields)

lemma group_before: "group (beforeSettingsChanged s) = group s"
  by (simp add: group_def before_acc_fields)

lemma raised_startUpdate: "raised (snd (startDocumentUpdateObservation doc s)) = raised s"
  by (simp add: startDocumentUpdateObservation_def Let_def)

lemma fire_cases:
  obtains "fire j s = s" "flushes (fire j s) = flushes s"
  | due tk where "(j, due, tk) \<in> set (timers s)"
      "fire j s = run_task tk (s\<lparr>timers := filter (\<lambda>t. fst t \<noteq> j) (timers s)\<rparr>)"
proof (cases "find (\<lambda>t. fst t = j) (timers s)")
  case None
  then have "fire j s = s" by (simp add: fire_def)
  then show ?thesis using that(1) by simp
next
  case (Some x)
  obtain k due tk where x: "x = (k, due, tk)" by (cases x)
  note f = find_handle [OF Some [unfolded x]]
  show ?thesis
  proof (cases "due \<le> clock s")
    case True
    then have "fire j s = run_task tk (s\<lparr>timers := filter (\<lambda>t. fst t \<noteq> j) (timers s)\<rparr>)"
      by (simp add: fire_def Some x)
    then show ?thesis using that(2) f(2) by blast
  next
    case False
    then have "fire j s = s" by (simp add: fire_def Some x)
    then show ?thesis using that(1) by simp
  qed
qed

lemma step_opens:
  assumes tw: "timers_wf s" and hw: "handles_wf s" and e: "group s = []"
    and o: "group (step ev s) \<noteq> []"
  shows "absolute_pending (clock s) (next_timer s + 1) (step ev s)"
proof (cases ev)
  case (Tick t)
  then show ?thesis using e o by (simp add: group_def split: if_splits)
next
  case (Fire j)
  show ?thesis
  proof (rule fire_cases [of j s])
    assume "fire j s = s"
    then show ?thesis using e o by (simp add: Fire)
  next
    fix due tk
    let ?s = "s\<lparr>timers := filter (\<lambda>t. fst t \<noteq> j) (timers s)\<rparr>"
    assume m: "(j, due, tk) \<in> set (timers s)" and f: "fire j s = run_task tk ?s"
    have g: "group ?s = []" using e by (simp add: group_def)
    show ?thesis
    proof (cases tk)
      case ReleaseSliding
      then show ?thesis using o by (simp add: Fire f group_release)
    next
      case ReleaseAbsolute
      then show ?thesis using o by (simp add: Fire f group_release)
    next
      case (BodyDrain d ms)
      have hw': "handles_wf ?s"
        by (rule handles_wf_remove [OF tw hw m]) (simp_all add: BodyDrain)
      have "absolute_pending (clock ?s) (next_timer ?s + 1) (bodyObserverCallback ms d ?s)"
        using callback_opens [OF hw' g] o by (simp add: Fire f BodyDrain)
      then show ?thesis by (simp add: Fire f BodyDrain)
    next
      case (HeadDrain d ms)
      then show ?thesis
        using o g by (simp add: Fire f group_acc [OF headCallback_acc])
    qed
  qed
next
  case (Mutate d ms)
  then show ?thesis using e o by (simp add: group_def)
next
  case (Deliver d)
  let ?s = "s\<lparr>bodyObservers := modify d takeRecords (bodyObservers s)\<rparr>"
  have hw': "handles_wf ?s" using hw by (simp add: handles_wf_upd)
  have g: "group ?s = []" using e by (simp add: group_def)
  have "absolute_pending (clock ?s) (next_timer ?s + 1)
          (bodyObserverCallback (pending (bodyObservers s) d) d ?s)"
    using callback_opens [OF hw' g] o e by (simp add: Deliver split: if_splits)
  then show ?thesis using o e by (simp add: Deliver split: if_splits)
next
  case (MutateHead d ms)
  then show ?thesis using e o by (simp add: group_def)
next
  case (DeliverHead d)
  then show ?thesis using e o
    by (simp add: group_def headObserverCallback_def raise_def split: option.splits if_splits)
next
  case (MutateUpdate d ms)
  then show ?thesis using e o by (simp add: group_def)
next
  case (DeliverUpdate d)
  then show ?thesis using e o
    by (simp add: group_def updateObserverCallback_def raise_def split: list.splits if_splits)
next
  case (Start doc r)
  then show ?thesis using e o by (simp add: group_acc [OF start_acc])
next
  case (Stop doc)
  then show ?thesis using e o by (simp add: group_stop)
next
  case (StartUpdate doc)
  then show ?thesis using e o by (simp add: group_acc [OF startUpdate_acc])
next
  case (StopUpdate doc)
  then show ?thesis using e o by (simp add: group_acc [OF stopUpdate_acc])
next
  case (SettingsChanged a c)
  then show ?thesis using e o by (simp add: group_before) (simp add: group_def)
next
  case (WriteElement x el)
  then show ?thesis using e o by (simp add: group_def)
next
  case (WriteRootTimestamp ts)
  then show ?thesis using e o by (simp add: group_def)
qed

lemma step_flush_clears:
  assumes "flushes s < flushes (step ev s)"
  shows "group (step ev s) = []"
proof (cases ev)
  case (Fire j)
  show ?thesis
  proof (rule fire_cases [of j s])
    assume "flushes (fire j s) = flushes s"
    then show ?thesis using assms by (simp add: Fire)
  next
    fix due tk
    let ?s = "s\<lparr>timers := filter (\<lambda>t. fst t \<noteq> j) (timers s)\<rparr>"
    assume f: "fire j s = run_task tk ?s"
    have fl: "flushes ?s = flushes s" by (simp add: flushes_def)
    show ?thesis
    proof (cases tk)
      case ReleaseSliding
      then show ?thesis by (simp add: Fire f group_release)
    next
      case ReleaseAbsolute
      then show ?thesis by (simp add: Fire f group_release)
    next
      case (BodyDrain d ms)
      then show ?thesis
        using assms callback_flush_clears [of ?s ms d] by (simp add: Fire f fl)
    next
      case (HeadDrain d ms)
      then show ?thesis
        using assms
        by (simp add: Fire f flushes_def headObserverCallback_def raise_def
            split: option.splits)
    qed
  qed
next
  case (Deliver d)
  let ?s = "s\<lparr>bodyObservers := modify d takeRecords (bodyObservers s)\<rparr>"
  have fl: "flushes ?s = flushes s" by (simp add: flushes_def)
  show ?thesis
    using assms callback_flush_clears [of ?s "pending (bodyObservers s) d" d]
    by (simp add: Deliver fl split: if_splits)
next
  case (DeliverHead d)
  then show ?thesis using assms
    by (simp add: flushes_def headObserverCallback_def raise_def split: option.splits if_splits)
next
  case (DeliverUpdate d)
  then show ?thesis using assms
    by (simp add: flushes_def updateObserverCallback_def raise_def split: list.splits if_splits)
next
  case (Start doc r)
  then show ?thesis using assms by (simp add: flushes_same [OF raised_start])
next
  case (Stop doc)
  then show ?thesis using assms by (simp add: flushes_same [OF raised_stop])
next
  case (StartUpdate doc)
  then show ?thesis using assms by (simp add: flushes_same [OF raised_startUpdate])
next
  case (StopUpdate doc)
  then show ?thesis using assms by (simp add: flushes_def stopDocumentUpdateObservation_def)
next
  case (SettingsChanged a c)
  then show ?thesis using assms by (simp add: flushes_def before_acc_fields)
qed (insert assms, simp_all add: flushes_def split: if_splits)

subsection \<open>The trickle example\<close>

lemma reachable_example_queued: "reachable example_queued"
  unfolding example_queued_def example_observer_def
  by (rule reachable_run) (rule reachable_init)

lemma example_queued_fields:
  "group example_queued = []"
  "clock example_queued = 0"
  "next_timer example_queued = 1"
  "step (Deliver 0) example_queued = example_buffering"
  by (simp_all add: example_queued_def example_buffering_def example_events_def example_defs)

lemma example_trickle_fields:
  "punctual_run example_trickle example_buffering"
  "flushes (run example_trickle example_buffering) = 0"
  "flushes example_buffering = 0"
  "clock (run example_trickle example_buffering) = 100"
  "group (run example_trickle example_buffering) = [1, 2, 3, 4, 5]"
  "timers (run example_trickle example_buffering)
     = [(2, 100, ReleaseAbsolute), (5, 105, ReleaseSliding)]"
  by (simp_all add: example_trickle_def example_buffering_def example_events_def example_defs flushes_def)

subsection \<open>Delivering a burst\<close>

lemma classify_bodyObservers:
  "classify ms (s\<lparr>bodyObservers := b\<rparr>) = classify ms s"
  by (simp add: classify_def)

lemma deliver_over_threshold:
  assumes r: "reachable s" and p: "pending (bodyObservers s) d \<noteq> []"
    and c: "childListChanges (snd (classify (pending (bodyObservers s) d) s)) = added"
    and ne: "added \<noteq> []"
    and big: "length (new_Set (group s @ added)) > addedElementsGroupMinimumSize"
  shows "ElementsAdded (next_addr s) (new_Set (group s @ added))
           \<in> set (drop (length (raised s)) (raised (step (Deliver d) s)))"
    and "flushes (step (Deliver d) s) = flushes s + 1"
    and "group (step (Deliver d) s) = []"
    and "filter is_release (timers (step (Deliver d) s)) = []"
proof -
  let ?ms = "pending (bodyObservers s) d"
  let ?s = "s\<lparr>bodyObservers := modify d takeRecords (bodyObservers s)\<rparr>"
  obtain els ch where ec: "classify ?ms ?s = (els, ch)" by (cases "classify ?ms ?s")
  then have ch: "childListChanges ch = added"
    using c by (simp add: classify_bodyObservers)
  have st: "step (Deliver d) s = bodyObserverCallback ?ms d ?s"
    using p by simp
  have g: "group ?s = group s" "next_addr ?s = next_addr s" "raised ?s = raised s"
    by (simp_all add: group_def)
  note rb = raised_bodyCallback [OF ec, of d, unfolded g ch]
  show "ElementsAdded (next_addr s) (new_Set (group s @ added))
           \<in> set (drop (length (raised s)) (raised (step (Deliver d) s)))"
    using ne big unfolding st by (simp add: rb)
  show f: "flushes (step (Deliver d) s) = flushes s + 1"
    using ne big unfolding st by (simp add: rb flushes_def)
  then have "flushes s < flushes (step (Deliver d) s)" by simp
  then show e: "group (step (Deliver d) s) = []" by (rule step_flush_clears)
  have "inv (step (Deliver d) s)" by (rule inv_step [OF reachable_inv [OF r]])
  then have "handles_wf (step (Deliver d) s)" by (simp add: inv_def)
  then show "filter is_release (timers (step (Deliver d) s)) = []"
    using e by (rule empty_group_no_release_timers(3))
qed

lemma fold_addElementNode_distinct:
  "distinct xs \<Longrightarrow> set xs \<inter> set acc = {}
     \<Longrightarrow> fold addElementNode (map ElementNode xs) acc = acc @ xs"
  by (induction xs arbitrary: acc) (auto simp: addElementNode_def set_add_def)

lemma new_Set_distinct: "distinct xs \<Longrightarrow> new_Set xs = xs"
proof -
  have "\<And>acc. distinct xs \<Longrightarrow> set xs \<inter> set acc = {} \<Longrightarrow> fold set_add xs acc = acc @ xs"
    by (induction xs) (auto simp: set_add_def)
  from this [of "[]"] show "distinct xs \<Longrightarrow> new_Set xs = xs"
    by (simp add: new_Set_def)
qed

lemma example_burst_fields:
  "pending (bodyObservers example_burst) 0 = [ChildList 5 (map ElementNode [0..<51])]"
  "group example_burst = []"
  "raised example_burst = []"
  "next_addr example_burst = 1"
  "clock example_burst = 0"
  "isComplex example_burst"
  by (simp_all add: example_burst_def example_defs del: upt.simps map_upt_Suc)

lemma reachable_example_burst: "reachable example_burst"
  unfolding example_burst_def example_observer_def
  by (rule reachable_run) (rule reachable_init)

lemma example_burst_classify:
  "childListChanges (snd (classify (pending (bodyObservers example_burst) 0) example_burst))
     = [0..<51]"
  unfolding example_burst_fields(1)
  using fold_addElementNode_distinct [of "[0..<51]" "[]"]
  by (simp add: classify_def no_changes_def del: upt.simps map_upt_Suc)

subsection \<open>A release timer that fires, and the set object of a burst\<close>

lemma find_by_handle:
  assumes "distinct (map fst ts)" and "(i, x) \<in> set ts"
  shows "find (\<lambda>t. fst t = i) ts = Some (i, x)"
  using assms by (induction ts) (auto simp: rev_image_eqI)

lemma fire_release:
  assumes tw: "timers_wf s" and m: "(i, due, tk) \<in> set (timers s)"
    and r: "is_release (i, due, tk)" and d: "due \<le> clock s"
  shows "fire i s
           = releaseAddedElementsGroup (s\<lparr>timers := filter (\<lambda>t. fst t \<noteq> i) (timers s)\<rparr>)"
proof -
  have f: "find (\<lambda>t. fst t = i) (timers s) = Some (i, due, tk)"
    by (rule find_by_handle [OF timers_wfD(3) [OF tw] m])
  show ?thesis
    using r d by (cases tk) (simp_all add: fire_def f)
qed

lemma release_after_removal:
  assumes hw: "handles_wf s" and m: "(i, due, tk) \<in> set (timers s)"
    and r: "is_release (i, due, tk)"
  shows "releaseAddedElementsGroup (s\<lparr>timers := filter (\<lambda>t. fst t \<noteq> i) (timers s)\<rparr>)
           = releaseAddedElementsGroup s"
proof -
  have h: "lastAddedElementsGroupSlidingTimeout s = Some i
           \<or> lastAddedElementsGroupAbsoluteTimeout s = Some i"
    using r m handles_wfD(1) [OF hw, of i due] handles_wfD(2) [OF hw, of i due]
    by (cases tk) auto
  have t: "filter (\<lambda>t. Some (fst t) \<noteq> lastAddedElementsGroupSlidingTimeout s
                     \<and> Some (fst t) \<noteq> lastAddedElementsGroupAbsoluteTimeout s)
             (filter (\<lambda>t. fst t \<noteq> i) (timers s))
           = filter (\<lambda>t. Some (fst t) \<noteq> lastAddedElementsGroupSlidingTimeout s
                     \<and> Some (fst t) \<noteq> lastAddedElementsGroupAbsoluteTimeout s) (timers s)"
    using h by (auto intro: filter_cong)
  let ?s = "s\<lparr>timers := filter (\<lambda>t. fst t \<noteq> i) (timers s)\<rparr>"
  have c: "clearAllTimeouts ?s = clearAllTimeouts s"
    using h by (intro observer.equality) (auto simp: clearAllTimeouts_fields intro: filter_cong)
  show ?thesis
    by (simp add: releaseAddedElementsGroup_def c)
qed

lemma fire_release_reachable:
  assumes r: "reachable s" and m: "(i, due, tk) \<in> set (timers s)"
    and rel: "is_release (i, due, tk)" and d: "due \<le> clock s"
  shows "step (Fire i) s = releaseAddedElementsGroup s" and "group s \<noteq> []"
proof -
  have tw: "timers_wf s" and hw: "handles_wf s"
    using reachable_inv [OF r] by (simp_all add: inv_def)
  show "step (Fire i) s = releaseAddedElementsGroup s"
    by (simp add: fire_release [OF tw m rel d] release_after_removal [OF hw m rel])
  have "lastAddedElementsGroupSlidingTimeout s = Some i
        \<or> lastAddedElementsGroupAbsoluteTimeout s = Some i"
    using rel m handles_wfD(1) [OF hw, of i due] handles_wfD(2) [OF hw, of i due]
    by (cases tk) auto
  then have "lastAddedElementsGroupAbsoluteTimeout s \<noteq> None"
    using handles_wfD(6) [OF hw] by auto
  then show "group s \<noteq> []"
    using handles_wfD(5) [OF hw] by simp
qed

lemma callback_heap:
  assumes "classify ms s = (els, ch)"
  shows "heap (bodyObserverCallback ms d s) =
           heap (groupChildListChanges ch (publishStyleChanges ch (s\<lparr>elements := els\<rparr>)))"
    and "addedElementsGroup (bodyObserverCallback ms d s) =
           addedElementsGroup
             (groupChildListChanges ch (publishStyleChanges ch (s\<lparr>elements := els\<rparr>)))"
  by (simp_all add: bodyObserverCallback_def assms disconnectIfInactive_fields
      publishClass_fields)

lemma deliver_over_threshold_set:
  assumes p: "pending (bodyObservers s) d \<noteq> []"
    and c: "childListChanges (snd (classify (pending (bodyObservers s) d) s)) = added"
    and ne: "added \<noteq> []"
    and big: "length (new_Set (group s @ added)) > addedElementsGroupMinimumSize"
  shows "addedElementsGroup (step (Deliver d) s) = next_addr s"
    and "heap (step (Deliver d) s) (next_addr s) = []"
proof -
  let ?ms = "pending (bodyObservers s) d"
  let ?s = "s\<lparr>bodyObservers := modify d takeRecords (bodyObservers s)\<rparr>"
  obtain els ch where ec: "classify ?ms ?s = (els, ch)" by (cases "classify ?ms ?s")
  then have ch: "childListChanges ch = added"
    using c by (simp add: classify_bodyObservers)
  have st: "step (Deliver d) s = bodyObserverCallback ?ms d ?s"
    using p by simp
  let ?s1 = "publishStyleChanges ch (?s\<lparr>elements := els\<rparr>)"
  have g: "group ?s1 = group s" "next_addr ?s1 = next_addr s"
    by (simp_all add: group_def publishStyle_fields)
  have b: "length (new_Set (group ?s1 @ added)) > addedElementsGroupMinimumSize"
    using big by (simp add: g)
  show "addedElementsGroup (step (Deliver d) s) = next_addr s"
    unfolding st using ne
    by (simp add: callback_heap [OF ec] groupChildListChanges_def ch groupAdded_frame g)
  show "heap (step (Deliver d) s) (next_addr s) = []"
    unfolding st using ne
    by (simp add: callback_heap [OF ec] groupChildListChanges_def ch
        groupAdded_flush(2) [OF b] g)
qed

lemma reachable_example_due: "reachable example_due"
  unfolding example_due_def by (rule reachable_run) (rule reachable_example_buffering)

lemma example_due_fields:
  "addedElementsGroup example_due = 4"
  "next_addr example_due = 5"
  "heap example_due 4 = [1, 2, 3, 4, 5]"
  "timers example_due = [(2, 100, ReleaseAbsolute), (5, 105, ReleaseSliding)]"
  "clock example_due = 100"
  "raised example_due = []"
  by (simp_all add: example_due_def example_trickle_def example_buffering_def
      example_events_def example_defs)

subsection \<open>What a whole batch puts into the published sets\<close>

lemma classify_snoc:
  "classify (ms @ [m]) s = process_mutation (clock s) (isComplex s) m (classify ms s)"
  by (simp add: classify_def)

lemma process_mutation_eligible:
  "eligible (fst (process_mutation now cx m (els, ch)) t) = eligible (els t)"
  by (cases m) (simp_all add: Let_def eligible_throttle)

lemma classify_eligible: "eligible (fst (classify ms s) t) = eligible (elements s t)"
proof (induction ms rule: rev_induct)
  case Nil
  show ?case by (simp add: classify_def)
next
  case (snoc m ms)
  obtain els ch where c: "classify ms s = (els, ch)" by (cases "classify ms s")
  show ?case
    using snoc process_mutation_eligible [of "clock s" "isComplex s" m els ch t]
    by (simp add: classify_snoc c)
qed

lemma class_member_step:
  "t \<in> set (classChanges (snd (process_mutation now cx m (els, ch))))
     \<longleftrightarrow> t \<in> set (classChanges ch)
         \<or> (m = Attributes t (Some ''class'')
            \<and> notThrottled (throttle now (els t)) \<and> eligible (els t))"
  by (cases m) (auto simp: Let_def eligible_throttle set_set_add)

lemma style_member_step:
  "t \<in> set (styleChanges (snd (process_mutation now cx m (els, ch))))
     \<longleftrightarrow> t \<in> set (styleChanges ch)
         \<or> (\<exists>a. m = Attributes t a
                \<and> (a = Some ''style'' \<or> a = Some ''fill'' \<or> a = Some ''stroke'') \<and> cx
                \<and> notThrottled (throttle now (els t)) \<and> eligible (els t))"
  by (cases m) (auto simp: Let_def eligible_throttle set_set_add)

lemma class_member_batch:
  "t \<in> set (classChanges (snd (classify ms s)))
     \<longleftrightarrow> (\<exists>i<length ms. ms ! i = Attributes t (Some ''class'')
            \<and> notThrottled (throttle (clock s) (fst (classify (take i ms) s) t))
            \<and> eligible (elements s t))"
proof (induction ms rule: rev_induct)
  case Nil
  show ?case by (simp add: classify_def no_changes_def)
next
  case (snoc m ms)
  obtain els ch where c: "classify ms s = (els, ch)" by (cases "classify ms s")
  have e: "eligible (els t) = eligible (elements s t)"
    using classify_eligible [of ms s t] by (simp add: c)
  have old: "(\<exists>i<length ms. (ms @ [m]) ! i = Attributes t (Some ''class'')
            \<and> notThrottled (throttle (clock s) (fst (classify (take i (ms @ [m])) s) t))
            \<and> eligible (elements s t))
          \<longleftrightarrow> t \<in> set (classChanges ch)"
    using snoc by (auto simp: c nth_append)
  have "t \<in> set (classChanges (snd (classify (ms @ [m]) s)))
          \<longleftrightarrow> t \<in> set (classChanges ch)
              \<or> (m = Attributes t (Some ''class'')
                 \<and> notThrottled (throttle (clock s) (els t)) \<and> eligible (elements s t))"
    by (simp add: classify_snoc c class_member_step e)
  also have "\<dots> \<longleftrightarrow> (\<exists>i<Suc (length ms). (ms @ [m]) ! i = Attributes t (Some ''class'')
            \<and> notThrottled (throttle (clock s) (fst (classify (take i (ms @ [m])) s) t))
            \<and> eligible (elements s t))"
    unfolding less_Suc_eq using old by (auto simp: c)
  finally show ?case by simp
qed

lemma style_member_batch:
  "t \<in> set (styleChanges (snd (classify ms s)))
     \<longleftrightarrow> (\<exists>i<length ms. \<exists>a. ms ! i = Attributes t a
            \<and> (a = Some ''style'' \<or> a = Some ''fill'' \<or> a = Some ''stroke'')
            \<and> isComplex s
            \<and> notThrottled (throttle (clock s) (fst (classify (take i ms) s) t))
            \<and> eligible (elements s t))"
proof (induction ms rule: rev_induct)
  case Nil
  show ?case by (simp add: classify_def no_changes_def)
next
  case (snoc m ms)
  obtain els ch where c: "classify ms s = (els, ch)" by (cases "classify ms s")
  have e: "eligible (els t) = eligible (elements s t)"
    using classify_eligible [of ms s t] by (simp add: c)
  have old: "(\<exists>i<length ms. \<exists>a. (ms @ [m]) ! i = Attributes t a
            \<and> (a = Some ''style'' \<or> a = Some ''fill'' \<or> a = Some ''stroke'')
            \<and> isComplex s
            \<and> notThrottled (throttle (clock s) (fst (classify (take i (ms @ [m])) s) t))
            \<and> eligible (elements s t))
          \<longleftrightarrow> t \<in> set (styleChanges ch)"
    using snoc by (auto simp: c nth_append)
  have "t \<in> set (styleChanges (snd (classify (ms @ [m]) s)))
          \<longleftrightarrow> t \<in> set (styleChanges ch)
              \<or> (\<exists>a. m = Attributes t a
                 \<and> (a = Some ''style'' \<or> a = Some ''fill'' \<or> a = Some ''stroke'')
                 \<and> isComplex s
                 \<and> notThrottled (throttle (clock s) (els t)) \<and> eligible (elements s t))"
    by (simp add: classify_snoc c style_member_step e)
  also have "\<dots> \<longleftrightarrow> (\<exists>i<Suc (length ms). \<exists>a. (ms @ [m]) ! i = Attributes t a
            \<and> (a = Some ''style'' \<or> a = Some ''fill'' \<or> a = Some ''stroke'')
            \<and> isComplex s
            \<and> notThrottled (throttle (clock s) (fst (classify (take i (ms @ [m])) s) t))
            \<and> eligible (elements s t))"
    unfolding less_Suc_eq using old by (auto simp: c)
  finally show ?case by simp
qed

lemma published_sets:
  "ClassChanged xs \<in> set (drop (length (raised s)) (raised (bodyObserverCallback ms d s)))
     \<longleftrightarrow> xs = classChanges (snd (classify ms s)) \<and> xs \<noteq> []"
  "StyleChanged xs \<in> set (drop (length (raised s)) (raised (bodyObserverCallback ms d s)))
     \<longleftrightarrow> xs = styleChanges (snd (classify ms s)) \<and> xs \<noteq> []"
  by (cases "classify ms s"; auto simp: raised_bodyCallback)+

lemma example_batch_fields:
  "length example_batch = 4"
  "example_batch ! 2 = Attributes 1 (Some ''class'')"
  "example_batch ! 3 = Attributes 2 (Some ''fill'')"
  "notThrottled (throttle (clock example_observer)
     (fst (classify (take 2 example_batch) example_observer) 1))"
  "notThrottled (throttle (clock example_observer)
     (fst (classify (take 3 example_batch) example_observer) 2))"
  "eligible (elements example_observer e)"
  "isComplex example_observer"
  "raised example_observer = []"
  "raised (bodyObserverCallback example_batch 0 example_observer)
     = [StyleChanged [2], ClassChanged [1]]"
  by (simp_all add: example_batch_def example_defs)

subsection \<open>A second stop\<close>

lemma example_drained_fields:
  "bodyObservers example_drained 0
     = Some \<lparr>observing = None, records = [], obs_state = Some Stopped\<rparr>"
  "timers example_drained = []"
  "next_timer example_drained = 3"
  "raised example_drained = []"
  by (simp_all add: example_drained_def headObserverCallback_def example_defs)

lemma example_second_stop_fields:
  "raised (run example_second_stop example_drained) = []"
  "bodyObservers (run example_second_stop example_drained) 0
     = Some \<lparr>observing = None, records = [], obs_state = Some Active\<rparr>"
  "raised (run example_no_second_stop example_drained) = [ClassChanged [1]]"
  by (simp_all add: example_second_stop_def example_no_second_stop_def example_drained_def
      headObserverCallback_def example_defs)

lemma stop_issues_handle:
  assumes "bodyObservers s (doc_id doc) = Some ob"
  shows "next_timer s < next_timer (snd (stopDocumentObservation doc s))"
  by (simp add: stop_snd stopHead_def stopBody_cases(2) [OF assms] Let_def setTimeout_def
      split: option.splits)

section \<open>The claims\<close>

text \<open>
  C1.  Whenever the group merged by \<open>groupAddedElements\<close> has more than
  \<open>addedElementsGroupMinimumSize\<close> = 50 members, the same call raises
  \<open>onElementsAdded\<close> once, with the group's \<open>Set\<close> object holding exactly the merged
  set, leaves the group empty and both timer fields \<open>undefined\<close>, arms no timer (no
  handle is handed out) and leaves pending none of the timers the two fields named.
  Seen from the event loop: when the browser delivers, in a reachable state, records
  whose inserted elements bring the group over 50, the delivery publishes the merged
  set and ends with an empty group and no release timer pending.  A chunk of 51
  elements added to an empty group is published as it is.
\<close>

theorem size_threshold_flush:
  assumes "length (new_Set (group s @ added)) > addedElementsGroupMinimumSize"
  shows "raised (groupAddedElements added s) =
           raised s @ [ElementsAdded (addedElementsGroup (groupAddedElements added s))
                         (new_Set (group s @ added))]
         \<and> group (groupAddedElements added s) = []
         \<and> lastAddedElementsGroupSlidingTimeout (groupAddedElements added s) = None
         \<and> lastAddedElementsGroupAbsoluteTimeout (groupAddedElements added s) = None
         \<and> timers (groupAddedElements added s) =
             filter (\<lambda>t. Some (fst t) \<noteq> lastAddedElementsGroupSlidingTimeout s
                       \<and> Some (fst t) \<noteq> lastAddedElementsGroupAbsoluteTimeout s) (timers s)
         \<and> next_timer (groupAddedElements added s) = next_timer s
         \<and> (reachable s \<and> pending (bodyObservers s) d \<noteq> [] \<and> added \<noteq> []
              \<and> childListChanges (snd (classify (pending (bodyObservers s) d) s)) = added
              \<longrightarrow> ElementsAdded (next_addr s) (new_Set (group s @ added))
                    \<in> set (drop (length (raised s)) (raised (step (Deliver d) s)))
                  \<and> flushes (step (Deliver d) s) = flushes s + 1
                  \<and> group (step (Deliver d) s) = []
                  \<and> filter is_release (timers (step (Deliver d) s)) = [])"
  using deliver_over_threshold [of s d added] assms
  by (simp add: groupAdded_flush [OF assms] groupAdded_frame group_def)

theorem size_threshold_flush_witness:
  "length (new_Set (group example_burst @ [0..<51])) > addedElementsGroupMinimumSize
   \<and> reachable example_burst
   \<and> pending (bodyObservers example_burst) 0 \<noteq> []
   \<and> childListChanges (snd (classify (pending (bodyObservers example_burst) 0) example_burst))
       = [0..<51]
   \<and> length [0..<(51::nat)] = 51
   \<and> raised (groupAddedElements [0..<51] example_burst) = [ElementsAdded 1 [0..<51]]
   \<and> group (groupAddedElements [0..<51] example_burst) = []
   \<and> ElementsAdded 1 [0..<51] \<in> set (raised (step (Deliver 0) example_burst))
   \<and> flushes (step (Deliver 0) example_burst) = 1
   \<and> group (step (Deliver 0) example_burst) = []
   \<and> filter is_release (timers (step (Deliver 0) example_burst)) = []"
proof -
  have n: "new_Set [0..<51] = [0..<(51::nat)]"
    by (rule new_Set_distinct) simp
  have h: "length (new_Set (group example_burst @ [0..<51])) > addedElementsGroupMinimumSize"
    by (simp add: example_burst_fields n addedElementsGroupMinimumSize_def del: upt.simps)
  have p: "pending (bodyObservers example_burst) 0 \<noteq> []"
    by (simp add: example_burst_fields(1))
  have a: "[0..<51] \<noteq> ([]::nat list)" by simp
  note t = size_threshold_flush [OF h, of 0]
  have 1: "raised (groupAddedElements [0..<51] example_burst) = [ElementsAdded 1 [0..<51]]"
    and 2: "group (groupAddedElements [0..<51] example_burst) = []"
    using t by (simp_all add: example_burst_fields n groupAdded_frame del: upt.simps)
  have 3: "ElementsAdded (next_addr example_burst) (new_Set (group example_burst @ [0..<51]))
             \<in> set (drop (length (raised example_burst)) (raised (step (Deliver 0) example_burst)))"
    and 4: "flushes (step (Deliver 0) example_burst) = flushes example_burst + 1"
    and 5: "group (step (Deliver 0) example_burst) = []"
    and 6: "filter is_release (timers (step (Deliver 0) example_burst)) = []"
    using t reachable_example_burst p a example_burst_classify by blast+
  have c3: "ElementsAdded 1 [0..<51] \<in> set (raised (step (Deliver 0) example_burst))"
    using 3 by (simp add: example_burst_fields n del: upt.simps step.simps)
  have c4: "flushes (step (Deliver 0) example_burst) = 1"
    using 4 by (simp add: flushes_def example_burst_fields(3) del: step.simps)
  show ?thesis
    using h reachable_example_burst p example_burst_classify 1 2 c3 c4 5 6
    by (simp del: upt.simps step.simps)
qed

text \<open>
  C2.  Let an event open a group, that is, lead from a reachable state with an empty
  group at time \<open>t0\<close> to a state with a non-empty group.  Before it no release timer
  is pending; after it the absolute timer is the fresh handle held in its field, due at
  \<open>t0 + 100\<close>.  After any further events, with the clock never passing a pending
  timer, either the group has been flushed, or the clock reads at most \<open>t0 + 100\<close>
  and the absolute timer pending is still that one timer with that deadline: it is not
  armed again while the group is open, whatever the sliding timer does.  An event that
  flushes, for whichever of the three reasons, leaves the group empty, both fields
  \<open>undefined\<close> and no release timer pending.
\<close>

theorem absolute_timer_caps_buffering:
  assumes "reachable s0" and "group s0 = []" and "group (step e s0) \<noteq> []"
    and "punctual_run evs (step e s0)"
  shows "filter is_release (timers s0) = []
         \<and> absolute_pending (clock s0) (next_timer s0 + 1) (step e s0)
         \<and> (flushes (run evs (step e s0)) = flushes (step e s0) \<longrightarrow>
               absolute_pending (clock s0) (next_timer s0 + 1) (run evs (step e s0))
               \<and> (\<forall>j d. (j, d, ReleaseAbsolute) \<in> set (timers (run evs (step e s0)))
                      \<longrightarrow> j = next_timer s0 + 1
                          \<and> d = clock s0 + addedElementsGroupAbsoluteTimeoutMS))
         \<and> (reachable s \<and> flushes s < flushes (step e' s) \<longrightarrow>
               group (step e' s) = []
               \<and> filter is_release (timers (step e' s)) = []
               \<and> lastAddedElementsGroupSlidingTimeout (step e' s) = None
               \<and> lastAddedElementsGroupAbsoluteTimeout (step e' s) = None)"
proof -
  have i0: "inv s0" by (rule reachable_inv [OF assms(1)])
  then have tw: "timers_wf s0" and hw: "handles_wf s0" by (simp_all add: inv_def)
  have 1: "filter is_release (timers s0) = []"
    by (rule empty_group_no_release_timers(3) [OF hw assms(2)])
  have 2: "absolute_pending (clock s0) (next_timer s0 + 1) (step e s0)"
    by (rule step_opens [OF tw hw assms(2,3)])
  have i1: "inv (step e s0)" by (rule inv_step [OF i0])
  let ?s = "run evs (step e s0)"
  have i2: "inv ?s" by (rule inv_run [OF i1])
  have 3: "absolute_pending (clock s0) (next_timer s0 + 1) ?s
           \<and> (\<forall>j d. (j, d, ReleaseAbsolute) \<in> set (timers ?s)
                  \<longrightarrow> j = next_timer s0 + 1
                      \<and> d = clock s0 + addedElementsGroupAbsoluteTimeoutMS)"
    if same: "flushes ?s = flushes (step e s0)"
  proof -
    have ap: "absolute_pending (clock s0) (next_timer s0 + 1) ?s"
      using run_keeps_pending [OF i1 2 assms(4)] same by simp
    have tw2: "timers_wf ?s" and hw2: "handles_wf ?s" using i2 by (simp_all add: inv_def)
    show ?thesis
      using ap only_absolute [OF tw2 hw2 ap] by blast
  qed
  have 4: "group (step e' s) = []
           \<and> filter is_release (timers (step e' s)) = []
           \<and> lastAddedElementsGroupSlidingTimeout (step e' s) = None
           \<and> lastAddedElementsGroupAbsoluteTimeout (step e' s) = None"
    if r: "reachable s" and f: "flushes s < flushes (step e' s)"
  proof -
    have "inv (step e' s)" by (rule inv_step [OF reachable_inv [OF r]])
    then have h: "handles_wf (step e' s)" by (simp add: inv_def)
    have g: "group (step e' s) = []" by (rule step_flush_clears [OF f])
    show ?thesis
      using g empty_group_no_release_timers [OF h g] by simp
  qed
  show ?thesis using 1 2 3 4 by blast
qed

theorem absolute_timer_caps_buffering_witness:
  "reachable example_queued \<and> group example_queued = []
   \<and> group (step (Deliver 0) example_queued) \<noteq> []
   \<and> punctual_run example_trickle (step (Deliver 0) example_queued)
   \<and> flushes (run example_trickle (step (Deliver 0) example_queued))
       = flushes (step (Deliver 0) example_queued)
   \<and> absolute_pending 0 2 (run example_trickle (step (Deliver 0) example_queued))
   \<and> clock (run example_trickle (step (Deliver 0) example_queued)) = 100
   \<and> timers (run example_trickle (step (Deliver 0) example_queued))
       = [(2, 100, ReleaseAbsolute), (5, 105, ReleaseSliding)]"
proof -
  note q = example_queued_fields(4)
  have g: "group (step (Deliver 0) example_queued) \<noteq> []"
    unfolding q by (simp add: example_buffering_fields)
  have p: "punctual_run example_trickle (step (Deliver 0) example_queued)"
    unfolding q by (rule example_trickle_fields)
  have f: "flushes (run example_trickle (step (Deliver 0) example_queued))
             = flushes (step (Deliver 0) example_queued)"
    unfolding q by (simp add: example_trickle_fields)
  note t = absolute_timer_caps_buffering
    [OF reachable_example_queued example_queued_fields(1) g p, of example_observer "Tick 0"]
  have n: "next_timer example_queued + 1 = 2" "clock example_queued = 0"
    by (simp_all add: example_queued_fields(2,3))
  have "absolute_pending (clock example_queued) (next_timer example_queued + 1)
             (run example_trickle (step (Deliver 0) example_queued))"
    using t f by blast
  then have a: "absolute_pending 0 2 (run example_trickle (step (Deliver 0) example_queued))"
    unfolding n .
  have c: "clock (run example_trickle (step (Deliver 0) example_queued)) = 100"
    "timers (run example_trickle (step (Deliver 0) example_queued))
       = [(2, 100, ReleaseAbsolute), (5, 105, ReleaseSliding)]"
    unfolding q by (rule example_trickle_fields)+
  show ?thesis
    using a g p f c reachable_example_queued example_queued_fields(1) by blast
qed

text \<open>
  C3, as amended.  The counter of an element is bumped by one for each attribute record
  that arrives less than \<open>mutationThrottleTime\<close> = 30 ms after the element's
  \<open>mlTimestamp\<close>.  Once the counter is at \<open>maxMutationsCount\<close> = 300 or above, no
  record of a body callback puts the element into a \<open>ClassChanged\<close> or
  \<open>StyleChanged\<close> publication, and the callback leaves the counter at or above the
  cap: it never lowers or resets it, however much time has passed.  The record whose
  bump brings the counter to the cap is itself dropped.  The theorem after
  the witness shows where the claim as stated fails: 4000 ms after the last timestamp,
  with no collision, the counter still stands at 300 and a class change is still
  dropped.
\<close>

theorem capped_element_stays_ignored:
  assumes "maxMutationsCount \<le> or_zero (mlMutationThrottledCount (elements s t))"
  shows "(\<forall>xs. ClassChanged xs \<in> set (drop (length (raised s))
                                         (raised (bodyObserverCallback ms d s)))
               \<longrightarrow> t \<notin> set xs)
         \<and> (\<forall>xs. StyleChanged xs \<in> set (drop (length (raised s))
                                         (raised (bodyObserverCallback ms d s)))
               \<longrightarrow> t \<notin> set xs)
         \<and> maxMutationsCount
             \<le> or_zero (mlMutationThrottledCount (elements (bodyObserverCallback ms d s) t))
         \<and> or_zero (mlMutationThrottledCount (elements s t))
             \<le> or_zero (mlMutationThrottledCount (elements (bodyObserverCallback ms d s) t))
         \<and> mlMutationThrottledCount (throttle now el)
             = (if truthy (mlTimestamp el)
                   \<and> now - or_zero (mlTimestamp el) < mutationThrottleTime
                then Some (or_zero (mlMutationThrottledCount el) + 1)
                else mlMutationThrottledCount el)
         \<and> (maxMutationsCount \<le> or_zero (mlMutationThrottledCount (throttle now (els u)))
              \<longrightarrow> snd (process_mutation now complex (Attributes u a) (els, ch)) = ch)"
proof -
  obtain els ch where c: "classify ms s = (els, ch)" by (cases "classify ms s")
  then have f: "fold (process_mutation (clock s) (isComplex s)) ms (elements s, no_changes)
                  = (els, ch)"
    by (simp add: classify_def)
  have k: "or_zero (mlMutationThrottledCount (elements s t))
             \<le> or_zero (mlMutationThrottledCount (els t))"
    and nc: "t \<notin> set (classChanges ch)" and ns: "t \<notin> set (styleChanges ch)"
    using fold_process_capped [OF assms f] by (auto simp: no_changes_def)
  have cap: "maxMutationsCount \<le> or_zero (mlMutationThrottledCount (els t))"
    using assms k by linarith
  have one: "snd (process_mutation now complex (Attributes u a) (els', ch')) = ch'"
    if "maxMutationsCount \<le> or_zero (mlMutationThrottledCount (throttle now (els' u)))"
    for els' ch'
    using capped_is_throttled [OF that] by (simp add: Let_def)
  have rest: "(\<forall>xs. ClassChanged xs \<in> set (drop (length (raised s))
                                         (raised (bodyObserverCallback ms d s)))
               \<longrightarrow> t \<notin> set xs)
         \<and> (\<forall>xs. StyleChanged xs \<in> set (drop (length (raised s))
                                         (raised (bodyObserverCallback ms d s)))
               \<longrightarrow> t \<notin> set xs)
         \<and> maxMutationsCount
             \<le> or_zero (mlMutationThrottledCount (elements (bodyObserverCallback ms d s) t))
         \<and> or_zero (mlMutationThrottledCount (elements s t))
             \<le> or_zero (mlMutationThrottledCount (elements (bodyObserverCallback ms d s) t))
         \<and> mlMutationThrottledCount (throttle now el)
             = (if truthy (mlTimestamp el)
                   \<and> now - or_zero (mlTimestamp el) < mutationThrottleTime
                then Some (or_zero (mlMutationThrottledCount el) + 1)
                else mlMutationThrottledCount el)"
    using k nc ns cap
    by (auto simp: raised_bodyCallback [OF c] count_bodyCallback [OF c] throttle_def
        split: if_splits)
  show ?thesis using rest one by blast
qed

theorem capped_element_stays_ignored_witness:
  "maxMutationsCount \<le> or_zero (mlMutationThrottledCount (elements example_storming 1))
   \<and> maxMutationsCount
       \<le> or_zero (mlMutationThrottledCount
            (elements (bodyObserverCallback
                         [Attributes 1 (Some ''class''), Attributes 1 (Some ''style'')]
                         0 example_storming) 1))
   \<and> ClassChanged [1]
       \<notin> set (drop (length (raised example_storming))
                (raised (bodyObserverCallback
                           [Attributes 1 (Some ''class''), Attributes 1 (Some ''style'')]
                           0 example_storming)))"
proof -
  have h: "maxMutationsCount
             \<le> or_zero (mlMutationThrottledCount (elements example_storming 1))"
    by (simp add: example_storming_fields maxMutationsCount_def or_zero_def)
  note t = capped_element_stays_ignored [OF h,
      of "[Attributes 1 (Some ''class''), Attributes 1 (Some ''style'')]" 0 0 example_element]
  have a: "\<And>xs. ClassChanged xs
              \<in> set (drop (length (raised example_storming))
                       (raised (bodyObserverCallback
                                  [Attributes 1 (Some ''class''), Attributes 1 (Some ''style'')]
                                  0 example_storming)))
            \<Longrightarrow> 1 \<notin> set xs"
    using t by blast
  have b: "maxMutationsCount
       \<le> or_zero (mlMutationThrottledCount
            (elements (bodyObserverCallback
                         [Attributes 1 (Some ''class''), Attributes 1 (Some ''style'')]
                         0 example_storming) 1))"
    using t by blast
  have c: "ClassChanged [1]
       \<notin> set (drop (length (raised example_storming))
                (raised (bodyObserverCallback
                           [Attributes 1 (Some ''class''), Attributes 1 (Some ''style'')]
                           0 example_storming)))"
    using a [of "[1]"] by auto
  show ?thesis using h b c by blast
qed

theorem throttle_reset_counterexample:
  "mlMutationThrottledCount (elements example_storming 1) = Some maxMutationsCount
   \<and> mlTimestamp (elements example_storming 1) = Some 1000
   \<and> clock example_storming = 5000
   \<and> \<not> (clock example_storming - 1000 < mutationThrottleTime)
   \<and> isChecked (elements example_storming 1)
   \<and> raised (bodyObserverCallback [Attributes 1 (Some ''class'')] 0 example_storming)
       = raised example_storming
   \<and> mlMutationThrottledCount
        (elements (bodyObserverCallback [Attributes 1 (Some ''class'')] 0 example_storming) 1)
       = Some maxMutationsCount"
  by (simp add: example_storming_def storming_element_def example_defs)

text \<open>
  C4.  For a document with a body observer, \<open>stopDocumentObservation\<close> returns the
  observer's previous state; on return the observer is disconnected, its queue is taken
  and its state is \<open>Stopped\<close>, nothing has been raised and no element or group has
  changed.  The records taken wait in a timer due one millisecond later, which cannot
  fire at the clock reading of the call, and which runs \<open>bodyObserverCallback\<close> on
  them.
\<close>

theorem stop_defers_drain:
  assumes "reachable s" and "bodyObservers s (doc_id doc) = Some ob"
  shows "fst (stopDocumentObservation doc s) = obs_state ob
         \<and> bodyObservers (snd (stopDocumentObservation doc s)) (doc_id doc)
             = Some (ob\<lparr>observing := None, records := [], obs_state := Some Stopped\<rparr>)
         \<and> raised (snd (stopDocumentObservation doc s)) = raised s
         \<and> elements (snd (stopDocumentObservation doc s)) = elements s
         \<and> group (snd (stopDocumentObservation doc s)) = group s
         \<and> clock (snd (stopDocumentObservation doc s)) = clock s
         \<and> filter is_body_drain (timers (snd (stopDocumentObservation doc s)))
             = filter is_body_drain (timers s)
               @ [(next_timer s, clock s + 1, BodyDrain (doc_id doc) (records ob))]
         \<and> fire (next_timer s) (snd (stopDocumentObservation doc s))
             = snd (stopDocumentObservation doc s)
         \<and> run_task (BodyDrain (doc_id doc) (records ob))
             = bodyObserverCallback (records ob) (doc_id doc)"
proof -
  let ?b = "snd (stopBody (doc_id doc) s)"
  note b = stopBody_fields [OF assms(2)]
  obtain rest where rest: "timers (stopHead doc ?b) = timers ?b @ rest"
    "filter is_body_drain rest = []"
    using stopHead_fields(7) [of doc ?b] by blast
  have tw: "timers_wf s"
    using reachable_inv [OF assms(1)] by (simp add: inv_def)
  have t: "timers (snd (stopDocumentObservation doc s))
             = timers s @ (next_timer s, clock s + 1, BodyDrain (doc_id doc) (records ob)) # rest"
    by (simp add: stop_snd rest b)
  have f: "fire (next_timer s) (snd (stopDocumentObservation doc s))
             = snd (stopDocumentObservation doc s)"
    by (rule fire_not_due [OF tw t]) (simp add: stop_snd stopHead_fields b)
  have r: "run_task (BodyDrain (doc_id doc) (records ob))
             = bodyObserverCallback (records ob) (doc_id doc)"
    by (rule ext) simp
  show ?thesis
    using f r rest(2)
    by (simp add: stop_fst t) (simp add: stop_snd stopHead_fields b group_def stopObserver_def
      disconnect_def)
qed

theorem stop_defers_drain_witness:
  "reachable example_observing
   \<and> bodyObservers example_observing (doc_id example_document) =
       Some \<lparr>observing = Some BodyObserverConfig, records = [Attributes 1 (Some ''class'')],
             obs_state = Some Active\<rparr>
   \<and> fst (stopDocumentObservation example_document example_observing) = Some Active
   \<and> bodyObservers (snd (stopDocumentObservation example_document example_observing)) 0
       = Some \<lparr>observing = None, records = [], obs_state = Some Stopped\<rparr>
   \<and> raised (snd (stopDocumentObservation example_document example_observing)) = []
   \<and> filter is_body_drain
         (timers (snd (stopDocumentObservation example_document example_observing)))
       = [(1, 1, BodyDrain 0 [Attributes 1 (Some ''class'')])]"
proof -
  have d: "doc_id example_document = 0" by (simp add: example_document_def)
  have b: "bodyObservers example_observing (doc_id example_document) =
       Some \<lparr>observing = Some BodyObserverConfig, records = [Attributes 1 (Some ''class'')],
             obs_state = Some Active\<rparr>"
    by (simp add: d example_observing_fields)
  show ?thesis
    using stop_defers_drain [OF reachable_example_observing b] reachable_example_observing
    by (simp add: d example_observing_fields)
qed

text \<open>
  C5, as amended.  Stopping a document whose body observer is already \<open>Stopped\<close>
  returns \<open>Stopped\<close>, leaves every body observer, every element, the group and the
  clock as they were and raises nothing; the drain it schedules carries no record, and
  running it raises nothing and changes neither the accumulator nor any element.  It is
  not a no-op: the call has no guard on the state, so it hands out a timer handle and
  leaves the state changed, and the drain without records still runs the callback's last
  statement, the disconnect under inactive settings.  The theorem after the witness
  shows where the claim as stated fails: the second stop moves the next handle from 3 to
  5 and adds two timers, and under inactive settings a class change that is published
  after a restart is lost when a second stop came before the restart.
\<close>

theorem stop_idempotent:
  assumes "reachable s" and "bodyObservers s (doc_id doc) = Some ob"
    and "obs_state ob = Some Stopped"
  shows "fst (stopDocumentObservation doc s) = Some Stopped
         \<and> bodyObservers (snd (stopDocumentObservation doc s)) = bodyObservers s
         \<and> raised (snd (stopDocumentObservation doc s)) = raised s
         \<and> filter is_body_drain (timers (snd (stopDocumentObservation doc s)))
             = filter is_body_drain (timers s)
               @ [(next_timer s, clock s + 1, BodyDrain (doc_id doc) [])]
         \<and> raised (run_task (BodyDrain (doc_id doc) []) x) = raised x
         \<and> accumulator (run_task (BodyDrain (doc_id doc) []) x) = accumulator x
         \<and> elements (run_task (BodyDrain (doc_id doc) []) x) = elements x
         \<and> next_timer s < next_timer (snd (stopDocumentObservation doc s))
         \<and> snd (stopDocumentObservation doc s) \<noteq> s
         \<and> elements (snd (stopDocumentObservation doc s)) = elements s
         \<and> group (snd (stopDocumentObservation doc s)) = group s
         \<and> clock (snd (stopDocumentObservation doc s)) = clock s
         \<and> run_task (BodyDrain (doc_id doc) []) x = disconnectIfInactive (doc_id doc) x"
proof -
  have "observers_wf s"
    using reachable_inv [OF assms(1)] by (simp add: inv_def)
  then have ok: "observer_ok ob"
    using observers_wfD(1) assms(2) by blast
  then have o: "observing ob = None" and q: "records ob = []"
    using assms(3) by (simp_all add: observer_ok_def)
  have same: "stopObserver ob = ob"
    by (simp add: stopObserver_def disconnect_def o q assms(3))
  let ?b = "snd (stopBody (doc_id doc) s)"
  note b = stopBody_fields [OF assms(2)]
  obtain rest where rest: "timers (stopHead doc ?b) = timers ?b @ rest"
    "filter is_body_drain rest = []"
    using stopHead_fields(7) [of doc ?b] by blast
  have m: "(bodyObservers s)(doc_id doc \<mapsto> ob) = bodyObservers s"
    using assms(2) by (simp add: fun_upd_idem)
  have old: "fst (stopDocumentObservation doc s) = Some Stopped
         \<and> bodyObservers (snd (stopDocumentObservation doc s)) = bodyObservers s
         \<and> raised (snd (stopDocumentObservation doc s)) = raised s
         \<and> filter is_body_drain (timers (snd (stopDocumentObservation doc s)))
             = filter is_body_drain (timers s)
               @ [(next_timer s, clock s + 1, BodyDrain (doc_id doc) [])]
         \<and> raised (run_task (BodyDrain (doc_id doc) []) x) = raised x
         \<and> accumulator (run_task (BodyDrain (doc_id doc) []) x) = accumulator x
         \<and> elements (run_task (BodyDrain (doc_id doc) []) x) = elements x"
    using rest(2)
    by (simp add: stop_fst stop_snd stopHead_fields b rest(1) same m q assms(3)
        bodyCallback_Nil disconnectIfInactive_fields accumulator_def)
  have h: "next_timer s < next_timer (snd (stopDocumentObservation doc s))"
    by (rule stop_issues_handle [OF assms(2)])
  then have ne: "snd (stopDocumentObservation doc s) \<noteq> s" by auto
  have fr: "elements (snd (stopDocumentObservation doc s)) = elements s
         \<and> group (snd (stopDocumentObservation doc s)) = group s
         \<and> clock (snd (stopDocumentObservation doc s)) = clock s"
    by (simp add: stop_snd stopHead_fields b group_def)
  have rt: "run_task (BodyDrain (doc_id doc) []) x = disconnectIfInactive (doc_id doc) x"
    by (simp add: bodyCallback_Nil)
  show ?thesis using old h ne fr rt by blast
qed

theorem stop_idempotent_witness:
  "reachable example_stopped
   \<and> bodyObservers example_stopped (doc_id example_document) =
       Some \<lparr>observing = None, records = [], obs_state = Some Stopped\<rparr>
   \<and> obs_state \<lparr>observing = None, records = [], obs_state = Some Stopped\<rparr> = Some Stopped
   \<and> fst (stopDocumentObservation example_document example_stopped) = Some Stopped
   \<and> bodyObservers (snd (stopDocumentObservation example_document example_stopped))
       = bodyObservers example_stopped
   \<and> raised (snd (stopDocumentObservation example_document example_stopped)) = []
   \<and> filter is_body_drain
         (timers (snd (stopDocumentObservation example_document example_stopped)))
       = [(1, 1, BodyDrain 0 [Attributes 1 (Some ''class'')]), (3, 1, BodyDrain 0 [])]
   \<and> 3 < next_timer (snd (stopDocumentObservation example_document example_stopped))"
proof -
  have d: "doc_id example_document = 0" by (simp add: example_document_def)
  have b: "bodyObservers example_stopped (doc_id example_document) =
       Some \<lparr>observing = None, records = [], obs_state = Some Stopped\<rparr>"
    by (simp add: d example_stopped_fields)
  have o: "obs_state \<lparr>observing = None, records = [], obs_state = Some Stopped\<rparr>
             = Some Stopped"
    by simp
  show ?thesis
    using stop_idempotent [OF reachable_example_stopped b o] reachable_example_stopped
    by (simp add: d example_stopped_fields)
qed

theorem second_stop_counterexample:
  "map_option obs_state (bodyObservers example_stopped (doc_id example_document))
     = Some (Some Stopped)
   \<and> snd (stopDocumentObservation example_document example_stopped) \<noteq> example_stopped
   \<and> next_timer example_stopped = 3
   \<and> next_timer (snd (stopDocumentObservation example_document example_stopped)) = 5
   \<and> timers example_stopped =
       [(1, 1, BodyDrain 0 [Attributes 1 (Some ''class'')]), (2, 1, HeadDrain 0 [])]
   \<and> timers (snd (stopDocumentObservation example_document example_stopped)) =
       [(1, 1, BodyDrain 0 [Attributes 1 (Some ''class'')]), (2, 1, HeadDrain 0 []),
        (3, 1, BodyDrain 0 []), (4, 1, HeadDrain 0 [])]
   \<and> map_option obs_state (bodyObservers example_drained 0) = Some (Some Stopped)
   \<and> raised (run example_no_second_stop example_drained) = [ClassChanged [1]]
   \<and> raised (run example_second_stop example_drained) = []"
proof -
  have t: "next_timer (snd (stopDocumentObservation example_document example_stopped)) = 5"
    "timers (snd (stopDocumentObservation example_document example_stopped)) =
       [(1, 1, BodyDrain 0 [Attributes 1 (Some ''class'')]), (2, 1, HeadDrain 0 []),
        (3, 1, BodyDrain 0 []), (4, 1, HeadDrain 0 [])]"
    by (simp_all add: example_stopped_def example_observing_def example_defs)
  have n: "snd (stopDocumentObservation example_document example_stopped) \<noteq> example_stopped"
    using t(1) example_stopped_fields(4) by auto
  have d: "doc_id example_document = 0" by (simp add: example_document_def)
  show ?thesis
    using t n
    by (simp add: d example_stopped_fields example_drained_fields example_second_stop_fields)
qed

text \<open>
  C6.  For every batch and every element: the callback publishes a \<open>ClassChanged\<close>
  set holding the element exactly when some record of the batch, at whatever position,
  is a \<open>class\<close> change on it that finds it not throttled (after this record's own
  bump, on the counter as the earlier records of the batch left it) and eligible
  (\<open>isChecked\<close> or the body element); it publishes a \<open>StyleChanged\<close> set holding
  the element exactly when some record is a \<open>style\<close>, \<open>fill\<close> or \<open>stroke\<close>
  change on it under the same two conditions and \<open>isComplex\<close> holds.  Any other
  attribute name, a throttled target and an ineligible target contribute to neither.
  The sets published are the sets the loop has collected, and each is published at most
  once and only when not empty.  For a batch of one record the publication is given in
  full, and for one turn of the loop the change of the collected sets.
\<close>

theorem attribute_classification:
  "((\<exists>xs. ClassChanged xs
            \<in> set (drop (length (raised s)) (raised (bodyObserverCallback ms d s)))
          \<and> t \<in> set xs)
      \<longleftrightarrow> (\<exists>i<length ms. ms ! i = Attributes t (Some ''class'')
             \<and> notThrottled (throttle (clock s) (fst (classify (take i ms) s) t))
             \<and> eligible (elements s t)))
   \<and> ((\<exists>xs. StyleChanged xs
            \<in> set (drop (length (raised s)) (raised (bodyObserverCallback ms d s)))
          \<and> t \<in> set xs)
      \<longleftrightarrow> (\<exists>i<length ms. \<exists>a. ms ! i = Attributes t a
             \<and> (a = Some ''style'' \<or> a = Some ''fill'' \<or> a = Some ''stroke'')
             \<and> isComplex s
             \<and> notThrottled (throttle (clock s) (fst (classify (take i ms) s) t))
             \<and> eligible (elements s t)))
   \<and> (ClassChanged xs
         \<in> set (drop (length (raised s)) (raised (bodyObserverCallback ms d s)))
       \<longleftrightarrow> xs = classChanges (snd (classify ms s)) \<and> xs \<noteq> [])
   \<and> (StyleChanged xs
         \<in> set (drop (length (raised s)) (raised (bodyObserverCallback ms d s)))
       \<longleftrightarrow> xs = styleChanges (snd (classify ms s)) \<and> xs \<noteq> [])
   \<and> raised (bodyObserverCallback [Attributes t a] d s) =
     raised s @
     (if notThrottled (throttle (clock s) (elements s t)) \<and> eligible (elements s t)
      then (if a = Some ''class'' then [ClassChanged [t]]
            else if (a = Some ''style'' \<or> a = Some ''fill'' \<or> a = Some ''stroke'')
                    \<and> isComplex s
            then [StyleChanged [t]]
            else [])
      else [])
   \<and> snd (process_mutation now complex (Attributes t a) (els, ch)) =
     (if notThrottled (throttle now (els t)) \<and> eligible (els t)
      then (if a = Some ''class'' then ch\<lparr>classChanges := set_add t (classChanges ch)\<rparr>
            else if (a = Some ''style'' \<or> a = Some ''fill'' \<or> a = Some ''stroke'')
                    \<and> complex
            then ch\<lparr>styleChanges := set_add t (styleChanges ch)\<rparr>
            else ch)
      else ch)"
proof -
  have 1: "raised (bodyObserverCallback [Attributes t a] d s) =
     raised s @
     (if notThrottled (throttle (clock s) (elements s t)) \<and> eligible (elements s t)
      then (if a = Some ''class'' then [ClassChanged [t]]
            else if (a = Some ''style'' \<or> a = Some ''fill'' \<or> a = Some ''stroke'')
                    \<and> isComplex s
            then [StyleChanged [t]]
            else [])
      else [])"
    by (simp add: raised_bodyCallback [OF classify_single_attribute] no_changes_def)
  have 2: "snd (process_mutation now complex (Attributes t a) (els, ch)) =
     (if notThrottled (throttle now (els t)) \<and> eligible (els t)
      then (if a = Some ''class'' then ch\<lparr>classChanges := set_add t (classChanges ch)\<rparr>
            else if (a = Some ''style'' \<or> a = Some ''fill'' \<or> a = Some ''stroke'')
                    \<and> complex
            then ch\<lparr>styleChanges := set_add t (styleChanges ch)\<rparr>
            else ch)
      else ch)"
    by (simp add: Let_def eligible_throttle)
  have 3: "(\<exists>xs. ClassChanged xs
            \<in> set (drop (length (raised s)) (raised (bodyObserverCallback ms d s)))
          \<and> t \<in> set xs)
      \<longleftrightarrow> t \<in> set (classChanges (snd (classify ms s)))"
    unfolding published_sets by auto
  have 4: "(\<exists>xs. StyleChanged xs
            \<in> set (drop (length (raised s)) (raised (bodyObserverCallback ms d s)))
          \<and> t \<in> set xs)
      \<longleftrightarrow> t \<in> set (styleChanges (snd (classify ms s)))"
    unfolding published_sets by auto
  show ?thesis
    unfolding 3 4 class_member_batch [symmetric] style_member_batch [symmetric]
    using 1 2 published_sets [of xs s ms d] by blast
qed

theorem attribute_classification_witness:
  "(\<exists>i<length example_batch. example_batch ! i = Attributes 1 (Some ''class'')
        \<and> notThrottled (throttle (clock example_observer)
             (fst (classify (take i example_batch) example_observer) 1))
        \<and> eligible (elements example_observer 1))
   \<and> (\<exists>xs. ClassChanged xs
          \<in> set (drop (length (raised example_observer))
                   (raised (bodyObserverCallback example_batch 0 example_observer)))
        \<and> 1 \<in> set xs)
   \<and> (\<exists>xs. StyleChanged xs
          \<in> set (drop (length (raised example_observer))
                   (raised (bodyObserverCallback example_batch 0 example_observer)))
        \<and> 2 \<in> set xs)
   \<and> raised (bodyObserverCallback example_batch 0 example_observer)
       = [StyleChanged [2], ClassChanged [1]]
   \<and> raised (bodyObserverCallback [Attributes 1 (Some ''class'')] 0 example_observer)
     = [ClassChanged [1]]
   \<and> raised (bodyObserverCallback [Attributes 1 (Some ''fill'')] 0 example_observer)
     = [StyleChanged [1]]
   \<and> raised (bodyObserverCallback [Attributes 1 (Some ''fill'')] 0
               (example_observer\<lparr>isComplex := False\<rparr>))
     = []
   \<and> raised (bodyObserverCallback [Attributes 1 (Some ''id'')] 0 example_observer) = []
   \<and> raised (bodyObserverCallback [Attributes 1 (Some ''class'')] 0
               (example_observer\<lparr>elements := \<lambda>e. example_element\<lparr>isChecked := False\<rparr>\<rparr>))
     = []"
proof -
  have h1: "\<exists>i<length example_batch. example_batch ! i = Attributes 1 (Some ''class'')
        \<and> notThrottled (throttle (clock example_observer)
             (fst (classify (take i example_batch) example_observer) 1))
        \<and> eligible (elements example_observer 1)"
    using example_batch_fields(2,4,6) by (intro exI [of _ 2]) (simp add: example_batch_fields(1))
  have h2: "\<exists>i<length example_batch. \<exists>a. example_batch ! i = Attributes 2 a
        \<and> (a = Some ''style'' \<or> a = Some ''fill'' \<or> a = Some ''stroke'')
        \<and> isComplex example_observer
        \<and> notThrottled (throttle (clock example_observer)
             (fst (classify (take i example_batch) example_observer) 2))
        \<and> eligible (elements example_observer 2)"
    using example_batch_fields(3,5,6,7)
    by (intro exI [of _ 3] exI [of _ "Some ''fill''"]) (simp add: example_batch_fields(1))
  note t1 = attribute_classification [THEN conjunct1,
      of example_observer example_batch 0 1]
  note t2 = attribute_classification [THEN conjunct2, THEN conjunct1,
      of example_observer example_batch 0 2]
  have c1: "\<exists>xs. ClassChanged xs
          \<in> set (drop (length (raised example_observer))
                   (raised (bodyObserverCallback example_batch 0 example_observer)))
        \<and> 1 \<in> set xs"
    using t1 h1 by blast
  have c2: "\<exists>xs. StyleChanged xs
          \<in> set (drop (length (raised example_observer))
                   (raised (bodyObserverCallback example_batch 0 example_observer)))
        \<and> 2 \<in> set xs"
    using t2 h2 by blast
  have e: "\<And>x. notThrottled (throttle (clock example_observer) (elements example_observer x))"
    "\<And>x. eligible (elements example_observer x)"
    "raised example_observer = []" "isComplex example_observer"
    by (simp_all add: example_defs)
  have f: "\<not> isComplex (example_observer\<lparr>isComplex := False\<rparr>)"
    "\<not> eligible (example_element\<lparr>isChecked := False\<rparr>)"
    by (simp_all add: example_defs)
  note c = attribute_classification [THEN conjunct2, THEN conjunct2, THEN conjunct2,
      THEN conjunct2, THEN conjunct1]
  have single:
    "raised (bodyObserverCallback [Attributes 1 (Some ''class'')] 0 example_observer)
       = [ClassChanged [1]]
     \<and> raised (bodyObserverCallback [Attributes 1 (Some ''fill'')] 0 example_observer)
       = [StyleChanged [1]]
     \<and> raised (bodyObserverCallback [Attributes 1 (Some ''fill'')] 0
               (example_observer\<lparr>isComplex := False\<rparr>))
       = []
     \<and> raised (bodyObserverCallback [Attributes 1 (Some ''id'')] 0 example_observer) = []
     \<and> raised (bodyObserverCallback [Attributes 1 (Some ''class'')] 0
               (example_observer\<lparr>elements := \<lambda>e. example_element\<lparr>isChecked := False\<rparr>\<rparr>))
       = []"
    using c [of 1 "Some ''class''" 0 example_observer]
      c [of 1 "Some ''fill''" 0 example_observer]
      c [of 1 "Some ''fill''" 0 "example_observer\<lparr>isComplex := False\<rparr>"]
      c [of 1 "Some ''id''" 0 example_observer]
      c [of 1 "Some ''class''" 0
        "example_observer\<lparr>elements := \<lambda>e. example_element\<lparr>isChecked := False\<rparr>\<rparr>"]
    by (simp add: e f)
  show ?thesis
    using h1 c1 c2 example_batch_fields(9) single by blast
qed

text \<open>
  C7, as amended.  A batch delivered to the update observer raises \<open>onUpdateChanged\<close>
  exactly once, with the target of the first record of the batch, whatever the batch
  holds behind it; no element's throttle counter is read or written, and the
  accumulator and its timers are not touched.  The theorem after the witness shows where
  the claim as stated fails: of two records in one batch the second target is never
  published, and two records on one element give one publication.
\<close>

theorem update_batch_publishes_first_target:
  assumes "pending (updateObservers s) d = m # ms"
  shows "raised (step (DeliverUpdate d) s) = raised s @ [UpdateChanged (target m)]
         \<and> elements (step (DeliverUpdate d) s) = elements s
         \<and> accumulator (step (DeliverUpdate d) s) = accumulator s
         \<and> pending (updateObservers (step (DeliverUpdate d) s)) d = []
         \<and> updateObserverCallback (m # ms) d s = Inr (raise (UpdateChanged (target m)) s)"
  using assms
  by (auto simp: updateObserverCallback_def raise_def accumulator_def pending_def modify_def
      takeRecords_def split: option.splits)

theorem update_batch_publishes_first_target_witness:
  "pending (updateObservers example_updating) 0
     = Attributes 1 (Some ''ml-update'') # [Attributes 2 (Some ''ml-update'')]
   \<and> raised (step (DeliverUpdate 0) example_updating) = [UpdateChanged 1]
   \<and> pending (updateObservers (step (DeliverUpdate 0) example_updating)) 0 = []"
proof -
  have p: "pending (updateObservers example_updating) 0
     = Attributes 1 (Some ''ml-update'') # [Attributes 2 (Some ''ml-update'')]"
    by (simp add: example_updating_fields)
  show ?thesis
    using update_batch_publishes_first_target [OF p] p
    by (simp add: example_updating_fields)
qed

theorem update_batch_counterexample:
  "pending (updateObservers example_updating) 0
     = [Attributes 1 (Some ''ml-update''), Attributes 2 (Some ''ml-update'')]
   \<and> raised example_updating = []
   \<and> raised (step (DeliverUpdate 0) example_updating) = [UpdateChanged 1]
   \<and> UpdateChanged 2 \<notin> set (raised (step (DeliverUpdate 0) example_updating))
   \<and> pending (updateObservers example_updating_same) 0
     = [Attributes 1 (Some ''ml-update''), Attributes 1 (Some ''ml-update'')]
   \<and> raised example_updating_same = []
   \<and> raised (step (DeliverUpdate 0) example_updating_same) = [UpdateChanged 1]"
  by (simp add: example_updating_fields) (simp add: example_updating_def example_updating_same_def example_defs)

text \<open>
  C8.  No publication on \<open>onClassChanged\<close>, \<open>onStyleChanged\<close> or
  \<open>onElementsAdded\<close> ever carries an empty set, neither in a reachable state nor after
  a further body callback or release; releasing an empty group raises nothing, and a
  callback whose records produce no change raises nothing.
\<close>

theorem empty_sets_not_published:
  assumes "reachable s"
  shows "(\<forall>p \<in> set (raised s). nonempty_publication p)
         \<and> (\<forall>p \<in> set (raised (bodyObserverCallback ms d s)). nonempty_publication p)
         \<and> (\<forall>p \<in> set (raised (releaseAddedElementsGroup s)). nonempty_publication p)
         \<and> (group s = [] \<longrightarrow> raised (releaseAddedElementsGroup s) = raised s)
         \<and> (snd (classify ms s) = no_changes
              \<longrightarrow> raised (bodyObserverCallback ms d s) = raised s)"
proof -
  have p: "published_wf s"
    using reachable_inv [OF assms] by (simp add: inv_def)
  have 1: "published_wf (bodyObserverCallback ms d s)"
    by (rule published_wf_bodyCallback [OF p])
  have 2: "published_wf (releaseAddedElementsGroup s)"
    by (rule published_wf_release [OF p])
  have 3: "snd (classify ms s) = no_changes
             \<Longrightarrow> raised (bodyObserverCallback ms d s) = raised s"
    by (cases "classify ms s") (simp add: raised_bodyCallback no_changes_def)
  show ?thesis
    using p 1 2 3 unfolding published_wf_def by (simp add: release_fields)
qed

theorem empty_sets_not_published_witness:
  "reachable example_delivered
   \<and> raised example_delivered = [ClassChanged [1]]
   \<and> nonempty_publication (ClassChanged [1])
   \<and> group example_delivered = []
   \<and> raised (releaseAddedElementsGroup example_delivered) = raised example_delivered
   \<and> snd (classify [CharacterData 1] example_delivered) = no_changes
   \<and> raised (bodyObserverCallback [CharacterData 1] 0 example_delivered)
       = raised example_delivered"
proof -
  have c: "snd (classify [CharacterData 1] example_delivered) = no_changes"
    by (simp add: classify_def)
  show ?thesis
    using empty_sets_not_published [OF reachable_example_delivered,
        of "[CharacterData 1]" 0]
      reachable_example_delivered c
    by (simp add: example_delivered_fields)
qed

text \<open>
  C9.  Whatever calls \<open>releaseAddedElementsGroup\<close>, in a state whose group object
  was allocated before the next free address (every reachable state, and the state
  \<open>groupAddedElements\<close> has merged into): when the group is not empty the \<open>Set\<close>
  object handed to the \<open>onElementsAdded\<close> listeners is the group's own object, holding
  the whole group during the dispatch, and that object is empty once the release has
  returned, so a listener that kept the reference finds it empty.  The release allocates
  nothing; the next \<open>groupAddedElements\<close> puts the group into a new object and leaves
  the old one empty.  Both ways the program flushes are covered: an add or a delivery
  that brings the group over the threshold raises with the object just allocated by the
  merge and leaves that object empty, and a release timer that fires in a reachable
  state does what \<open>releaseAddedElementsGroup\<close> does there, raising with the group
  object and leaving it empty.
\<close>

theorem released_set_is_live_group:
  assumes "addedElementsGroup s < next_addr s"
  shows "(group s \<noteq> [] \<longrightarrow>
            raised (releaseAddedElementsGroup s) =
              raised s @ [ElementsAdded (addedElementsGroup s) (heap s (addedElementsGroup s))])
         \<and> heap (releaseAddedElementsGroup s) (addedElementsGroup s) = []
         \<and> addedElementsGroup (releaseAddedElementsGroup s) = addedElementsGroup s
         \<and> next_addr (releaseAddedElementsGroup s) = next_addr s
         \<and> addedElementsGroup (groupAddedElements added (releaseAddedElementsGroup s))
             = next_addr s
         \<and> next_addr s \<noteq> addedElementsGroup s
         \<and> heap (groupAddedElements added (releaseAddedElementsGroup s)) (addedElementsGroup s)
             = []
         \<and> (length (new_Set (group s @ added)) > addedElementsGroupMinimumSize \<longrightarrow>
               raised (groupAddedElements added s) =
                 raised s @ [ElementsAdded (next_addr s) (new_Set (group s @ added))]
               \<and> addedElementsGroup (groupAddedElements added s) = next_addr s
               \<and> heap (groupAddedElements added s) (next_addr s) = [])
         \<and> (reachable s \<and> pending (bodyObservers s) d \<noteq> [] \<and> added \<noteq> []
              \<and> childListChanges (snd (classify (pending (bodyObservers s) d) s)) = added
              \<and> length (new_Set (group s @ added)) > addedElementsGroupMinimumSize \<longrightarrow>
               ElementsAdded (next_addr s) (new_Set (group s @ added))
                 \<in> set (drop (length (raised s)) (raised (step (Deliver d) s)))
               \<and> addedElementsGroup (step (Deliver d) s) = next_addr s
               \<and> heap (step (Deliver d) s) (next_addr s) = [])
         \<and> (reachable s \<and> (i, due, tk) \<in> set (timers s) \<and> is_release (i, due, tk)
              \<and> due \<le> clock s \<longrightarrow>
               step (Fire i) s = releaseAddedElementsGroup s
               \<and> raised (step (Fire i) s) =
                   raised s @ [ElementsAdded (addedElementsGroup s) (heap s (addedElementsGroup s))]
               \<and> heap s (addedElementsGroup s) \<noteq> []
               \<and> heap (step (Fire i) s) (addedElementsGroup s) = []
               \<and> addedElementsGroup (step (Fire i) s) = addedElementsGroup s)
         \<and> (reachable x \<longrightarrow> addedElementsGroup x < next_addr x)
         \<and> addedElementsGroup (mergeGroup added x) < next_addr (mergeGroup added x)"
proof -
  let ?r = "releaseAddedElementsGroup s"
  note lt = assms
  have h: "heap (groupAddedElements added ?r) (addedElementsGroup s) = []"
  proof (cases "length (new_Set (group ?r @ added)) > addedElementsGroupMinimumSize")
    case True
    show ?thesis using lt by (simp add: groupAdded_flush(2) [OF True] release_fields)
  next
    case False
    show ?thesis using lt by (simp add: groupAdded_buffer(2) [OF False] release_fields)
  qed
  have a: "(group s \<noteq> [] \<longrightarrow>
            raised ?r =
              raised s @ [ElementsAdded (addedElementsGroup s) (heap s (addedElementsGroup s))])
         \<and> heap ?r (addedElementsGroup s) = []
         \<and> addedElementsGroup ?r = addedElementsGroup s
         \<and> next_addr ?r = next_addr s
         \<and> addedElementsGroup (groupAddedElements added ?r) = next_addr s
         \<and> next_addr s \<noteq> addedElementsGroup s
         \<and> heap (groupAddedElements added ?r) (addedElementsGroup s) = []"
    using lt h by (simp add: release_fields groupAdded_frame group_def)
  have b: "raised (groupAddedElements added s) =
                 raised s @ [ElementsAdded (next_addr s) (new_Set (group s @ added))]
               \<and> addedElementsGroup (groupAddedElements added s) = next_addr s
               \<and> heap (groupAddedElements added s) (next_addr s) = []"
    if "length (new_Set (group s @ added)) > addedElementsGroupMinimumSize"
    by (simp add: groupAdded_flush [OF that] groupAdded_frame)
  have c: "ElementsAdded (next_addr s) (new_Set (group s @ added))
                 \<in> set (drop (length (raised s)) (raised (step (Deliver d) s)))
               \<and> addedElementsGroup (step (Deliver d) s) = next_addr s
               \<and> heap (step (Deliver d) s) (next_addr s) = []"
    if "reachable s" "pending (bodyObservers s) d \<noteq> []" "added \<noteq> []"
      "childListChanges (snd (classify (pending (bodyObservers s) d) s)) = added"
      "length (new_Set (group s @ added)) > addedElementsGroupMinimumSize"
    using deliver_over_threshold(1) [OF that(1,2,4,3,5)]
      deliver_over_threshold_set [OF that(2,4,3,5)] by blast
  have e: "step (Fire i) s = ?r
               \<and> raised (step (Fire i) s) =
                   raised s @ [ElementsAdded (addedElementsGroup s) (heap s (addedElementsGroup s))]
               \<and> heap s (addedElementsGroup s) \<noteq> []
               \<and> heap (step (Fire i) s) (addedElementsGroup s) = []
               \<and> addedElementsGroup (step (Fire i) s) = addedElementsGroup s"
    if "reachable s" "(i, due, tk) \<in> set (timers s)" "is_release (i, due, tk)"
      "due \<le> clock s"
  proof -
    note f = fire_release_reachable [OF that]
    show ?thesis
      unfolding f(1) using f(2) by (simp add: release_fields group_def)
  qed
  have i: "addedElementsGroup x < next_addr x" if "reachable x"
    using reachable_inv [OF that] by (simp add: inv_def handles_wfD(7))
  have m: "addedElementsGroup (mergeGroup added x) < next_addr (mergeGroup added x)"
    by (simp add: mergeGroup_def)
  show ?thesis using a b c e i m by blast
qed

theorem released_set_is_live_group_witness:
  "addedElementsGroup example_due < next_addr example_due
   \<and> reachable example_due
   \<and> (2, 100, ReleaseAbsolute) \<in> set (timers example_due)
   \<and> is_release (2, 100, ReleaseAbsolute)
   \<and> 100 \<le> clock example_due
   \<and> raised (step (Fire 2) example_due) = [ElementsAdded 4 [1, 2, 3, 4, 5]]
   \<and> heap (step (Fire 2) example_due) 4 = []
   \<and> addedElementsGroup (step (Fire 2) example_due) = 4
   \<and> addedElementsGroup example_burst < next_addr example_burst
   \<and> reachable example_burst
   \<and> ElementsAdded 1 [0..<51] \<in> set (raised (step (Deliver 0) example_burst))
   \<and> addedElementsGroup (step (Deliver 0) example_burst) = 1
   \<and> heap (step (Deliver 0) example_burst) 1 = []"
proof -
  have lt: "addedElementsGroup example_due < next_addr example_due"
    by (simp add: example_due_fields)
  have m: "(2, 100, ReleaseAbsolute) \<in> set (timers example_due)"
    by (simp add: example_due_fields)
  have r: "is_release (2, 100, ReleaseAbsolute)" by simp
  have d: "100 \<le> clock example_due" by (simp add: example_due_fields)
  note t = released_set_is_live_group [OF lt, of "[]" 0 2 100 ReleaseAbsolute example_due]
  have 1: "raised (step (Fire 2) example_due) =
             raised example_due
             @ [ElementsAdded (addedElementsGroup example_due)
                  (heap example_due (addedElementsGroup example_due))]"
    and 2: "heap (step (Fire 2) example_due) (addedElementsGroup example_due) = []"
    and 3: "addedElementsGroup (step (Fire 2) example_due) = addedElementsGroup example_due"
    using t reachable_example_due m r d by blast+
  have lt': "addedElementsGroup example_burst < next_addr example_burst"
    by (simp add: example_burst_fields example_burst_def example_defs del: upt.simps map_upt_Suc)
  have n: "new_Set [0..<51] = [0..<(51::nat)]"
    by (rule new_Set_distinct) simp
  have big: "length (new_Set (group example_burst @ [0..<51])) > addedElementsGroupMinimumSize"
    by (simp add: example_burst_fields n addedElementsGroupMinimumSize_def del: upt.simps)
  have p: "pending (bodyObservers example_burst) 0 \<noteq> []"
    by (simp add: example_burst_fields(1))
  have a: "[0..<51] \<noteq> ([]::nat list)" by simp
  note u = released_set_is_live_group [OF lt', of "[0..<51]" 0 0 0 ReleaseSliding example_burst]
  have 4: "ElementsAdded (next_addr example_burst) (new_Set (group example_burst @ [0..<51]))
             \<in> set (drop (length (raised example_burst))
                      (raised (step (Deliver 0) example_burst)))"
    and 5: "addedElementsGroup (step (Deliver 0) example_burst) = next_addr example_burst"
    and 6: "heap (step (Deliver 0) example_burst) (next_addr example_burst) = []"
    using u reachable_example_burst p a example_burst_classify big by blast+
  have c1: "raised (step (Fire 2) example_due) = [ElementsAdded 4 [1, 2, 3, 4, 5]]"
    using 1 by (simp add: example_due_fields del: step.simps)
  have c2: "heap (step (Fire 2) example_due) 4 = []"
    using 2 by (simp add: example_due_fields del: step.simps)
  have c3: "addedElementsGroup (step (Fire 2) example_due) = 4"
    using 3 by (simp add: example_due_fields del: step.simps)
  have c4: "ElementsAdded 1 [0..<51] \<in> set (raised (step (Deliver 0) example_burst))"
    using 4 by (simp add: example_burst_fields n del: upt.simps step.simps)
  have c5: "addedElementsGroup (step (Deliver 0) example_burst) = 1"
    using 5 by (simp add: example_burst_fields del: step.simps)
  have c6: "heap (step (Deliver 0) example_burst) 1 = []"
    using 6 by (simp add: example_burst_fields del: step.simps)
  show ?thesis
    using lt reachable_example_due m r d c1 c2 c3 lt' reachable_example_burst c4 c5 c6
    by blast
qed

text \<open>
  C10.  For a document that has no body observer, \<open>stopDocumentObservation\<close> returns
  \<open>undefined\<close> and changes nothing: no state is set and no drain is scheduled.
\<close>

theorem stop_without_observer:
  assumes "reachable s" and "bodyObservers s (doc_id doc) = None"
  shows "stopDocumentObservation doc s = (None, s)"
proof -
  have "observers_wf s"
    using reachable_inv [OF assms(1)] by (simp add: inv_def)
  then have "headObservers s (doc_id doc) = None"
    using observers_wfD(2) [of s "doc_id doc"] assms(2) by blast
  then show ?thesis
    by (simp add: stopDocumentObservation_def stopBody_cases(1) [OF assms(2)] stopHead_cases(1))
qed

theorem stop_without_observer_witness:
  "reachable example_observer \<and> bodyObservers example_observer (doc_id example_document) = None
   \<and> stopDocumentObservation example_document example_observer = (None, example_observer)"
proof -
  have r: "reachable example_observer"
    unfolding example_observer_def by (rule reachable_init)
  have b: "bodyObservers example_observer (doc_id example_document) = None"
    by (simp add: example_observer_def init_def)
  show ?thesis
    using stop_without_observer [OF r b] r b by simp
qed

end
